theory Spec2Isabelle
  imports Main
begin

section \<open>Slug records of the \<open>thing_slugs\<close> table\<close>

text \<open>
  The schema of \<open>src/models/thing-slug.js\<close>: a document with the primary key \<open>name\<close>.
  No field is required by the schema, so \<open>baseName\<close> and \<open>qualifierPart\<close> are optional
  (\<open>None\<close> is JavaScript's \<open>undefined\<close>); \<open>name\<close>, \<open>thingID\<close>, \<open>createdOn\<close> and
  \<open>createdBy\<close> are set by every caller before \<open>qualifiedSave\<close> runs. \<open>createdOn\<close> is
  the date as milliseconds since the epoch.
\<close>

record thing_slug =
  name :: string
  baseName :: "string option"
  qualifierPart :: "string option"
  thingID :: string
  createdOn :: int
  createdBy :: string

text \<open>
  The schema's length limits (\<open>type.string().max(n)\<close>), checked when a document is saved.
  The identifiers are taken to be UUIDs and \<open>createdOn\<close> a date, as the schema types them.
\<close>

definition validate :: "thing_slug \<Rightarrow> bool" where
  "validate doc \<longleftrightarrow>
     length (name doc) \<le> 125 \<and>
     (case baseName doc of None \<Rightarrow> True | Some b \<Rightarrow> length b \<le> 100) \<and>
     (case qualifierPart doc of None \<Rightarrow> True | Some q \<Rightarrow> length q \<le> 25)"

section \<open>JavaScript numbers, \<open>Number(...)\<close> and \<open>String(...)\<close>\<close>

text \<open>
  \<open>qualifiedSave\<close> converts the latest qualifier with \<open>Number\<close>, adds one and converts
  back with \<open>String\<close>. A finite number is kept as a decimal \<open>Dec m e\<close>, standing for
  \<open>m * 10 ^ e\<close>; parsing and adding one are exact here, so the model agrees with binary64
  arithmetic wherever the literal and its successor are representable without rounding
  (all integers of magnitude below \<open>2 ^ 53\<close>, and fractions such as \<open>2.5\<close>). Negative
  zero is identified with zero: the code only ever adds one to it or prints it.
\<close>

datatype number = NaN | PosInfinity | NegInfinity | Dec int int

definition is_digit :: "char \<Rightarrow> bool" where
  "is_digit c \<longleftrightarrow> c \<in> set ''0123456789''"

definition digit_val :: "char \<Rightarrow> nat" where
  "digit_val c = of_char c - 48"

definition digits_val :: "string \<Rightarrow> nat" where
  "digits_val ds = foldl (\<lambda>n c. 10 * n + digit_val c) 0 ds"

text \<open>The decimal digit of a number below ten, and the numeral of a natural number.\<close>

definition digit_char :: "nat \<Rightarrow> char" where
  "digit_char n = ''0123456789'' ! n"

fun digits_of :: "nat \<Rightarrow> string" where
  "digits_of n = (if n < 10 then [digit_char n] else digits_of (n div 10) @ [digit_char (n mod 10)])"

declare digits_of.simps [simp del]

text \<open>The white space that \<open>Number\<close> strips, as far as it fits into one byte.\<close>

definition is_ws :: "char \<Rightarrow> bool" where
  "is_ws c \<longleftrightarrow> (of_char c :: nat) \<in> {9, 10, 11, 12, 13, 32, 160}"

definition trim :: "string \<Rightarrow> string" where
  "trim s = rev (dropWhile is_ws (rev (dropWhile is_ws s)))"

definition radix_digit :: "char \<Rightarrow> nat option" where
  "radix_digit c =
     (if is_digit c then Some (digit_val c)
      else if c \<in> set ''abcdef'' then Some (of_char c - 87)
      else if c \<in> set ''ABCDEF'' then Some (of_char c - 55)
      else None)"

definition radix_literal :: "nat \<Rightarrow> string \<Rightarrow> nat option" where
  "radix_literal b s =
     (if s \<noteq> [] \<and> list_all (\<lambda>c. case radix_digit c of None \<Rightarrow> False | Some v \<Rightarrow> v < b) s
      then Some (foldl (\<lambda>n c. b * n + the (radix_digit c)) 0 s)
      else None)"

definition exponent_part :: "string \<Rightarrow> int option" where
  "exponent_part s =
     (case s of
        [] \<Rightarrow> Some 0
      | c # r \<Rightarrow>
          if c = CHR ''e'' \<or> c = CHR ''E'' then
            (let (sg, ds) =
               (case r of
                  [] \<Rightarrow> (1, [])
                | x # r' \<Rightarrow>
                    if x = CHR ''-'' then (- 1, r')
                    else if x = CHR ''+'' then (1, r')
                    else (1, r))
             in if ds \<noteq> [] \<and> list_all is_digit ds then Some (sg * int (digits_val ds))
                else None)
          else None)"

definition unsigned_decimal :: "string \<Rightarrow> (nat \<times> int) option" where
  "unsigned_decimal s =
     (let ip = takeWhile is_digit s;
          r1 = dropWhile is_digit s;
          (fp, r2) =
            (case r1 of
               [] \<Rightarrow> ([], [])
             | c # r \<Rightarrow>
                 if c = CHR ''.'' then (takeWhile is_digit r, dropWhile is_digit r)
                 else ([], r1))
      in if ip = [] \<and> fp = [] then None
         else (case exponent_part r2 of
                 None \<Rightarrow> None
               | Some e \<Rightarrow> Some (digits_val (ip @ fp), e - int (length fp))))"

definition radix_prefix :: "string \<Rightarrow> nat option" where
  "radix_prefix s =
     (case s of
        c # x # _ \<Rightarrow>
          if c \<noteq> CHR ''0'' then None
          else if x = CHR ''x'' \<or> x = CHR ''X'' then Some 16
          else if x = CHR ''o'' \<or> x = CHR ''O'' then Some 8
          else if x = CHR ''b'' \<or> x = CHR ''B'' then Some 2
          else None
      | _ \<Rightarrow> None)"

definition StringToNumber :: "string \<Rightarrow> number" where
  "StringToNumber str =
     (let s = trim str in
      if s = [] then Dec 0 0
      else (case radix_prefix s of
              Some b \<Rightarrow>
                (case radix_literal b (drop 2 s) of
                   None \<Rightarrow> NaN
                 | Some v \<Rightarrow> Dec (int v) 0)
            | None \<Rightarrow>
                (let (neg, u) =
                   (case s of
                      [] \<Rightarrow> (False, s)
                    | c # r \<Rightarrow>
                        if c = CHR ''-'' then (True, r)
                        else if c = CHR ''+'' then (False, r)
                        else (False, s))
                 in if u = ''Infinity'' then (if neg then NegInfinity else PosInfinity)
                    else (case unsigned_decimal u of
                            None \<Rightarrow> NaN
                          | Some (m, e) \<Rightarrow> Dec (if neg then - int m else int m) e))))"

text \<open>\<open>Number(x)\<close> for a field that is a string or \<open>undefined\<close>.\<close>

definition Number :: "string option \<Rightarrow> number" where
  "Number x = (case x of None \<Rightarrow> NaN | Some s \<Rightarrow> StringToNumber s)"

definition isNaN :: "number \<Rightarrow> bool" where
  "isNaN x \<longleftrightarrow> x = NaN"

text \<open>
  \<open>x + 1\<close> on numbers, as exact decimal addition. JavaScript adds in binary64 and rounds;
  the two agree where \<open>x\<close> and \<open>x + 1\<close> are binary64 values (see \<open>exact_successor\<close>
  below). The theorems that depend on the value of a sum are stated there: for decimal
  integers below \<open>2 ^ 53\<close>, or under \<open>exact_successor\<close>.
\<close>

definition plus_one :: "number \<Rightarrow> number" where
  "plus_one x =
     (case x of
        Dec m e \<Rightarrow>
          if 0 \<le> e then Dec (m * 10 ^ nat e + 1) 0
          else Dec (m + 10 ^ nat (- e)) e
      | _ \<Rightarrow> x)"

text \<open>
  \<open>String(x)\<close> on numbers: the digits without trailing zeros, laid out by the position \<open>n\<close>
  of the decimal point, in exponent notation outside \<open>1e-6 .. 1e21\<close>.
\<close>

definition positive_to_string :: "nat \<Rightarrow> int \<Rightarrow> string" where
  "positive_to_string m e =
     (let ds = digits_of m;
          s = rev (dropWhile (\<lambda>c. c = CHR ''0'') (rev ds));
          k = int (length s);
          n = int (length ds) + e
      in if k \<le> n \<and> n \<le> 21 then s @ replicate (nat (n - k)) (CHR ''0'')
         else if 0 < n \<and> n \<le> 21 then take (nat n) s @ ''.'' @ drop (nat n) s
         else if - 6 < n \<and> n \<le> 0 then ''0.'' @ replicate (nat (- n)) (CHR ''0'') @ s
         else (let ex = n - 1;
                   es = (if ex < 0 then ''-'' else ''+'') @ digits_of (nat \<bar>ex\<bar>)
               in if k \<le> 1 then s @ ''e'' @ es
                  else take 1 s @ ''.'' @ drop 1 s @ ''e'' @ es))"

definition String :: "number \<Rightarrow> string" where
  "String x =
     (case x of
        NaN \<Rightarrow> ''NaN''
      | PosInfinity \<Rightarrow> ''Infinity''
      | NegInfinity \<Rightarrow> ''-Infinity''
      | Dec m e \<Rightarrow>
          if m = 0 then ''0''
          else (if m < 0 then ''-'' else []) @ positive_to_string (nat \<bar>m\<bar>) e)"


section \<open>The store: the table behind the model\<close>

text \<open>
  A promise of the persistence layer is rejected with an error object; \<open>qualifiedSave\<close>
  looks only at its \<open>name\<close>.
\<close>

datatype js_error = Error (err_name: string) (err_message: string)

definition DuplicatePrimaryKeyError :: js_error where
  "DuplicatePrimaryKeyError = Error ''DuplicatePrimaryKeyError'' ''Duplicate primary key''"

definition ValidationError :: js_error where
  "ValidationError = Error ''ValidationError'' ''Value too long''"

text \<open>
  The table is the list of its rows in insertion order; the primary key \<open>name\<close> makes
  the names of the rows distinct. The store also records every request it receives, so
  that the number and kind of store operations of a call can be stated.
\<close>

datatype db_call =
    Insert thing_slug
  | FilterBaseNameThingID string string
  | FilterBaseName string

record db =
  rows :: "thing_slug list"
  calls :: "db_call list"

definition names :: "db \<Rightarrow> string set" where
  "names d = set (map name (rows d))"

definition pk_unique :: "db \<Rightarrow> bool" where
  "pk_unique d \<longleftrightarrow> distinct (map name (rows d))"

text \<open>
  \<open>save()\<close> of a new document: the schema is checked first, then the insert is sent. The
  environment may fail the request with an error of its own (\<open>fault\<close>: a timeout, a lost
  connection); otherwise the insert is atomic and fails when the primary key is taken.
\<close>

definition save :: "js_error option \<Rightarrow> db \<Rightarrow> thing_slug \<Rightarrow> (js_error + thing_slug) \<times> db" where
  "save fault d doc =
     (if \<not> validate doc then (Inl ValidationError, d)
      else (let d' = d\<lparr>calls := calls d @ [Insert doc]\<rparr> in
            case fault of
              Some e \<Rightarrow> (Inl e, d')
            | None \<Rightarrow>
                if name doc \<in> names d then (Inl DuplicatePrimaryKeyError, d')
                else (Inr doc, d'\<lparr>rows := rows d @ [doc]\<rparr>)))"

text \<open>
  \<open>.orderBy(r.desc('createdOn')).limit(1)\<close>: the sort is stable, so among rows of the same
  date the one inserted first comes first (the database leaves that order open).
\<close>

definition orderBy_desc_createdOn :: "thing_slug list \<Rightarrow> thing_slug list" where
  "orderBy_desc_createdOn xs = sort_key (\<lambda>r. - createdOn r) xs"

definition limit :: "nat \<Rightarrow> thing_slug list \<Rightarrow> thing_slug list" where
  "limit n xs = take n xs"

definition latest_where :: "(thing_slug \<Rightarrow> bool) \<Rightarrow> db \<Rightarrow> thing_slug list" where
  "latest_where P d = limit 1 (orderBy_desc_createdOn (filter P (rows d)))"

definition run_query ::
  "js_error option \<Rightarrow> db_call \<Rightarrow> (thing_slug \<Rightarrow> bool) \<Rightarrow> db \<Rightarrow> (js_error + thing_slug list) \<times> db" where
  "run_query fault c P d =
     (let d' = d\<lparr>calls := calls d @ [c]\<rparr> in
      case fault of
        Some e \<Rightarrow> (Inl e, d')
      | None \<Rightarrow> (Inr (latest_where P d), d'))"

text \<open>\<open>ThingSlug.filter({baseName: b, thingID: t}).orderBy(r.desc('createdOn')).limit(1)\<close>\<close>

definition filter_baseName_thingID ::
  "js_error option \<Rightarrow> db \<Rightarrow> string \<Rightarrow> string \<Rightarrow> (js_error + thing_slug list) \<times> db" where
  "filter_baseName_thingID fault d b t =
     run_query fault (FilterBaseNameThingID b t) (\<lambda>r. baseName r = Some b \<and> thingID r = t) d"

text \<open>\<open>ThingSlug.filter({baseName: b}).orderBy(r.desc('createdOn')).limit(1)\<close>\<close>

definition filter_baseName ::
  "js_error option \<Rightarrow> db \<Rightarrow> string \<Rightarrow> (js_error + thing_slug list) \<times> db" where
  "filter_baseName fault d b = run_query fault (FilterBaseName b) (\<lambda>r. baseName r = Some b) d"

section \<open>\<open>qualifiedSave\<close>\<close>

text \<open>Lines 58 to 63: the number behind the next qualifier.\<close>

definition latestQualifier :: "thing_slug list \<Rightarrow> number" where
  "latestQualifier slugs =
     (case slugs of
        [] \<Rightarrow> Dec 2 0
      | s0 # _ \<Rightarrow>
          if \<not> isNaN (Number (qualifierPart s0)) then plus_one (Number (qualifierPart s0))
          else Dec 2 0)"

text \<open>Lines 64 and 65: the document as it is saved the second time.\<close>

definition qualify :: "thing_slug \<Rightarrow> number \<Rightarrow> thing_slug" where
  "qualify slug q =
     slug\<lparr>name := name slug @ ''-'' @ String q, qualifierPart := Some (String q)\<rparr>"

text \<open>The environment's faults for the four store operations a call can make.\<close>

record faults =
  save1_fault :: "js_error option"
  query1_fault :: "js_error option"
  query2_fault :: "js_error option"
  save2_fault :: "js_error option"

definition no_faults :: faults where
  "no_faults = \<lparr>save1_fault = None, query1_fault = None, query2_fault = None, save2_fault = None\<rparr>"

text \<open>
  The whole call, run without interruption: \<open>Inr\<close> is \<open>resolve\<close>, \<open>Inl\<close> is \<open>reject\<close>.
\<close>

definition qualifiedSave :: "faults \<Rightarrow> db \<Rightarrow> thing_slug \<Rightarrow> (js_error + thing_slug) \<times> db" where
  "qualifiedSave fs d0 this =
     (let slug = this\<lparr>baseName := Some (name this)\<rparr> in
      case save (save1_fault fs) d0 slug of
        (Inr saved, d1) \<Rightarrow> (Inr saved, d1)
      | (Inl error, d1) \<Rightarrow>
          if err_name error = ''DuplicatePrimaryKeyError'' then
            (case filter_baseName_thingID (query1_fault fs) d1 (name slug) (thingID slug) of
               (Inl e, d2) \<Rightarrow> (Inl e, d2)
             | (Inr slugs, d2) \<Rightarrow>
                 (case slugs of
                    s0 # _ \<Rightarrow> (Inr s0, d2)
                  | [] \<Rightarrow>
                      (case filter_baseName (query2_fault fs) d2 (name slug) of
                         (Inl e, d3) \<Rightarrow> (Inl e, d3)
                       | (Inr slugs', d3) \<Rightarrow>
                           save (save2_fault fs) d3 (qualify slug (latestQualifier slugs')))))
          else (Inl error, d1))"

section \<open>Concurrent calls\<close>

text \<open>
  Between two store operations of one call, operations of other calls can run. A call in
  flight is a task waiting for the answer to its next store operation; one step of a task
  is that operation, run atomically, followed by the callback up to the next request.
\<close>

datatype task =
    Save1 thing_slug
  | Query1 thing_slug
  | Query2 thing_slug
  | Save2 thing_slug
  | Resolved thing_slug
  | Rejected js_error

definition start :: "thing_slug \<Rightarrow> task" where
  "start this = Save1 (this\<lparr>baseName := Some (name this)\<rparr>)"

fun step :: "js_error option \<Rightarrow> db \<Rightarrow> task \<Rightarrow> task \<times> db" where
  "step fault d (Save1 slug) =
     (case save fault d slug of
        (Inr saved, d') \<Rightarrow> (Resolved saved, d')
      | (Inl error, d') \<Rightarrow>
          (if err_name error = ''DuplicatePrimaryKeyError'' then Query1 slug
           else Rejected error, d'))"
| "step fault d (Query1 slug) =
     (case filter_baseName_thingID fault d (name slug) (thingID slug) of
        (Inl e, d') \<Rightarrow> (Rejected e, d')
      | (Inr slugs, d') \<Rightarrow> (case slugs of s0 # _ \<Rightarrow> Resolved s0 | [] \<Rightarrow> Query2 slug, d'))"
| "step fault d (Query2 slug) =
     (case filter_baseName fault d (name slug) of
        (Inl e, d') \<Rightarrow> (Rejected e, d')
      | (Inr slugs, d') \<Rightarrow> (Save2 (qualify slug (latestQualifier slugs)), d'))"
| "step fault d (Save2 slug) =
     (case save fault d slug of
        (Inr saved, d') \<Rightarrow> (Resolved saved, d')
      | (Inl e, d') \<Rightarrow> (Rejected e, d'))"
| "step fault d (Resolved s) = (Resolved s, d)"
| "step fault d (Rejected e) = (Rejected e, d)"

text \<open>
  A schedule names, step by step, the task whose pending operation the store runs next,
  and the fault (if any) it answers with.
\<close>

type_synonym system = "db \<times> task list"

fun sched_step :: "nat \<times> js_error option \<Rightarrow> system \<Rightarrow> system" where
  "sched_step (i, fault) (d, ts) =
     (if i < length ts then (case step fault d (ts ! i) of (t', d') \<Rightarrow> (d', ts[i := t']))
      else (d, ts))"

definition run :: "(nat \<times> js_error option) list \<Rightarrow> system \<Rightarrow> system" where
  "run sched sys = fold sched_step sched sys"

text \<open>One call run alone: its four steps in a row.\<close>

definition run_alone :: "faults \<Rightarrow> db \<Rightarrow> thing_slug \<Rightarrow> task \<times> db" where
  "run_alone fs d0 this =
     (case step (save1_fault fs) d0 (start this) of (t1, d1) \<Rightarrow>
      case step (query1_fault fs) d1 t1 of (t2, d2) \<Rightarrow>
      case step (query2_fault fs) d2 t2 of (t3, d3) \<Rightarrow>
      step (save2_fault fs) d3 t3)"

text \<open>
  Modelled from the spec: the removal of a Slug record (section 3, Lifecycle: a Slug is
  deleted as part of subject deletion), which is not part of \<open>thing-slug.js\<close>.
\<close>

definition delete_slug :: "string \<Rightarrow> db \<Rightarrow> db" where
  "delete_slug n d = d\<lparr>rows := filter (\<lambda>r. name r \<noteq> n) (rows d)\<rparr>"

section \<open>Callers and examples\<close>

text \<open>
  Modelled from the spec: step 1 of the allocation algorithm, the candidate document that
  the subject layer builds before it calls \<open>qualifiedSave\<close> (the callers are not part of
  \<open>thing-slug.js\<close>): \<open>name\<close> is the desired name, no \<open>qualifierPart\<close> is set.
\<close>

definition candidate :: "string \<Rightarrow> string \<Rightarrow> string \<Rightarrow> int \<Rightarrow> thing_slug" where
  "candidate desiredName subjectID actorID now =
     \<lparr>name = desiredName, baseName = None, qualifierPart = None,
      thingID = subjectID, createdOn = now, createdBy = actorID\<rparr>"

text \<open>
  Modelled from the spec: the contract \<open>Allocate(desiredName, subjectID, actorID)\<close> of
  section 4.1, as the call of \<open>qualifiedSave\<close> on the candidate.
\<close>

definition Allocate :: "faults \<Rightarrow> db \<Rightarrow> string \<Rightarrow> string \<Rightarrow> string \<Rightarrow> int \<Rightarrow> (js_error + thing_slug) \<times> db" where
  "Allocate fs d desiredName subjectID actorID now =
     qualifiedSave fs d (candidate desiredName subjectID actorID now)"

definition empty_db :: db where
  "empty_db = \<lparr>rows = [], calls = []\<rparr>"

definition subjectA :: string where "subjectA = ''0a000000-0000-4000-8000-00000000000a''"
definition subjectB :: string where "subjectB = ''0b000000-0000-4000-8000-00000000000b''"
definition subjectC :: string where "subjectC = ''0c000000-0000-4000-8000-00000000000c''"
definition actorX :: string where "actorX = ''10000000-0000-4000-8000-000000000001''"
definition actorY :: string where "actorY = ''20000000-0000-4000-8000-000000000002''"
definition actorZ :: string where "actorZ = ''30000000-0000-4000-8000-000000000003''"

text \<open>The stores of the spec's examples, and stores with anomalous rows.\<close>

definition slugA :: thing_slug where
  "slugA = \<lparr>name = ''my-review'', baseName = Some ''my-review'', qualifierPart = None,
            thingID = subjectA, createdOn = 1000, createdBy = actorX\<rparr>"

definition slugB :: thing_slug where
  "slugB = \<lparr>name = ''my-review-2'', baseName = Some ''my-review'', qualifierPart = Some ''2'',
            thingID = subjectB, createdOn = 2000, createdBy = actorY\<rparr>"

definition store1 :: db where
  "store1 = \<lparr>rows = [slugA], calls = []\<rparr>"

definition store2 :: db where
  "store2 = \<lparr>rows = [slugA, slugB], calls = []\<rparr>"

definition store_with :: "string option \<Rightarrow> db" where
  "store_with q = \<lparr>rows = [slugA\<lparr>qualifierPart := q\<rparr>], calls = []\<rparr>"

definition timeout :: js_error where
  "timeout = Error ''ReqlTimeoutError'' ''Could not connect to the database''"

definition fault_at :: "nat \<Rightarrow> js_error \<Rightarrow> faults" where
  "fault_at k e =
     \<lparr>save1_fault = (if k = 1 then Some e else None),
      query1_fault = (if k = 2 then Some e else None),
      query2_fault = (if k = 3 then Some e else None),
      save2_fault = (if k = 4 then Some e else None)\<rparr>"

text \<open>
  The store after \<open>subjectB\<close> took \<open>my-review\<close>, \<open>subjectA\<close> was given \<open>my-review-2\<close>, and the
  record of \<open>subjectB\<close> was removed.
\<close>

definition orphan_store :: db where
  "orphan_store =
     delete_slug ''my-review''
       (snd (Allocate no_faults
               (snd (Allocate no_faults empty_db ''my-review'' subjectB actorY 1000))
               ''my-review'' subjectA actorX 2000))"

section \<open>The structural invariant of Slug records\<close>

text \<open>
  Section 3 of the spec: without \<open>qualifierPart\<close> the \<open>name\<close> is the \<open>baseName\<close>; with
  one, the \<open>name\<close> is \<open>baseName-qualifierPart\<close> and the qualifier is the decimal numeral of
  an integer of at least 2.
\<close>

definition canonical_qualifier :: "string \<Rightarrow> bool" where
  "canonical_qualifier q \<longleftrightarrow> q = digits_of (digits_val q) \<and> 2 \<le> digits_val q"

definition slug_invariant :: "thing_slug \<Rightarrow> bool" where
  "slug_invariant r =
     (case qualifierPart r of
        None \<Rightarrow> baseName r = Some (name r)
      | Some q \<Rightarrow>
          (case baseName r of None \<Rightarrow> False | Some b \<Rightarrow> name r = b @ ''-'' @ q) \<and>
          canonical_qualifier q)"

definition slugC :: thing_slug where
  "slugC = \<lparr>name = ''my-review-3'', baseName = Some ''my-review'', qualifierPart = Some ''3'',
            thingID = subjectC, createdOn = 3000, createdBy = actorZ\<rparr>"

section \<open>Qualifiers in allocation order\<close>

text \<open>
  The number a record stands for among the records of its base name: its decimal
  qualifier, and 1 for the unqualified record.
\<close>

definition qualifier_number :: "thing_slug \<Rightarrow> nat" where
  "qualifier_number r = (case qualifierPart r of None \<Rightarrow> 1 | Some q \<Rightarrow> digits_val q)"

definition sharing :: "string \<Rightarrow> db \<Rightarrow> thing_slug list" where
  "sharing b d = filter (\<lambda>r. baseName r = Some b) (rows d)"

text \<open>The records sharing a base name carry their numbers in the order of their dates.\<close>

definition chronological :: "string \<Rightarrow> db \<Rightarrow> bool" where
  "chronological b d \<longleftrightarrow>
     (\<forall>r\<in>set (sharing b d). \<forall>r'\<in>set (sharing b d).
        createdOn r \<le> createdOn r' \<longrightarrow> qualifier_number r \<le> qualifier_number r')"

section \<open>Examples of concurrent calls\<close>

definition subjectD :: string where "subjectD = ''0d000000-0000-4000-8000-00000000000d''"

text \<open>Two calls whose store operations alternate, without faults.\<close>

definition alternating :: "(nat \<times> js_error option) list" where
  "alternating =
     [(0, None), (1, None), (0, None), (1, None), (0, None), (1, None), (0, None), (1, None)]"

text \<open>
  A store in which \<open>my-review-2\<close> was itself requested as a name before \<open>my-review\<close> was.
\<close>

definition slugL :: thing_slug where
  "slugL = \<lparr>name = ''my-review-2'', baseName = Some ''my-review-2'', qualifierPart = None,
            thingID = subjectC, createdOn = 500, createdBy = actorZ\<rparr>"

definition taken_store :: db where
  "taken_store = \<lparr>rows = [slugL, slugA], calls = []\<rparr>"

text \<open>
  A store in which \<open>my-review-3\<close> was itself requested as a name, before \<open>my-review\<close> was
  allocated twice.
\<close>

definition slugM :: thing_slug where
  "slugM = \<lparr>name = ''my-review-3'', baseName = Some ''my-review-3'', qualifierPart = None,
            thingID = subjectD, createdOn = 500, createdBy = actorZ\<rparr>"

definition crowded_store :: db where
  "crowded_store = \<lparr>rows = [slugM, slugA, slugB], calls = []\<rparr>"

section \<open>Basic facts about the store operations\<close>

lemma err_name_Duplicate [simp]:
  "err_name DuplicatePrimaryKeyError = ''DuplicatePrimaryKeyError''"
  by (simp add: DuplicatePrimaryKeyError_def)

lemma err_name_Validation [simp]: "err_name ValidationError = ''ValidationError''"
  by (simp add: ValidationError_def)

lemma save_inserts:
  "validate doc \<Longrightarrow> name doc \<notin> names d \<Longrightarrow>
   save None d doc = (Inr doc, d\<lparr>calls := calls d @ [Insert doc], rows := rows d @ [doc]\<rparr>)"
  by (simp add: save_def Let_def)

lemma save_collides:
  "validate doc \<Longrightarrow> name doc \<in> names d \<Longrightarrow>
   save None d doc = (Inl DuplicatePrimaryKeyError, d\<lparr>calls := calls d @ [Insert doc]\<rparr>)"
  by (simp add: save_def Let_def)

lemma save_fault:
  "validate doc \<Longrightarrow> save (Some e) d doc = (Inl e, d\<lparr>calls := calls d @ [Insert doc]\<rparr>)"
  by (simp add: save_def Let_def)

lemma save_invalid: "\<not> validate doc \<Longrightarrow> save fault d doc = (Inl ValidationError, d)"
  by (simp add: save_def)

lemma validate_candidate:
  "qualifierPart this = None \<Longrightarrow>
   validate (this\<lparr>baseName := Some (name this)\<rparr>) \<longleftrightarrow> length (name this) \<le> 100"
  by (auto simp: validate_def)

section \<open>First use of a name\<close>

text \<open>
  Claim C7. When the desired name is not yet a key of the store (in particular when the
  store is empty), the document is a candidate as the callers build it (no qualifier, a
  name within the schema's limit for \<open>baseName\<close>) and the store answers the insert, the
  first insert succeeds: the call resolves with the candidate, whose \<open>name\<close> and
  \<open>baseName\<close> are the desired name and which has no \<open>qualifierPart\<close>; the store has
  received exactly one request, that insert, and holds the new row.
\<close>

theorem first_use_identity:
  assumes "name this \<notin> names d"
    and "length (name this) \<le> 100"
    and "qualifierPart this = None"
    and "save1_fault fs = None"
  shows "qualifiedSave fs d this =
           (Inr (this\<lparr>baseName := Some (name this)\<rparr>),
            d\<lparr>calls := calls d @ [Insert (this\<lparr>baseName := Some (name this)\<rparr>)],
              rows := rows d @ [this\<lparr>baseName := Some (name this)\<rparr>]\<rparr>)"
proof -
  let ?slug = "this\<lparr>baseName := Some (name this)\<rparr>"
  have v: "validate ?slug"
    using assms(2,3) by (simp add: validate_candidate)
  have n: "name ?slug \<notin> names d"
    using assms(1) by simp
  show ?thesis
    unfolding qualifiedSave_def Let_def assms(4)
    by (simp add: save_inserts [OF v n])
qed

text \<open>The spec's example: \<open>Allocate("my-review", subjectA, actorX)\<close> on an empty store.\<close>

theorem first_use_identity_witness:
  "name (candidate ''my-review'' subjectA actorX 1000) \<notin> names empty_db \<and>
   length (name (candidate ''my-review'' subjectA actorX 1000)) \<le> 100 \<and>
   qualifierPart (candidate ''my-review'' subjectA actorX 1000) = None \<and>
   save1_fault no_faults = None \<and>
   Allocate no_faults empty_db ''my-review'' subjectA actorX 1000 =
     (Inr \<lparr>name = ''my-review'', baseName = Some ''my-review'', qualifierPart = None,
           thingID = subjectA, createdOn = 1000, createdBy = actorX\<rparr>,
      \<lparr>rows = [\<lparr>name = ''my-review'', baseName = Some ''my-review'', qualifierPart = None,
           thingID = subjectA, createdOn = 1000, createdBy = actorX\<rparr>],
       calls = [Insert \<lparr>name = ''my-review'', baseName = Some ''my-review'', qualifierPart = None,
           thingID = subjectA, createdOn = 1000, createdBy = actorX\<rparr>]\<rparr>)"
  using first_use_identity [of "candidate ''my-review'' subjectA actorX 1000" empty_db no_faults]
  by (simp add: candidate_def empty_db_def no_faults_def names_def Allocate_def)

section \<open>Decimal numerals through \<open>Number\<close> and \<open>String\<close>\<close>

lemma digit_cases: "k < 10 \<Longrightarrow> k \<in> {0, 1, 2, 3, 4, 5, 6, 7, 8, 9::nat}"
  by auto

lemma digit_char_props:
  assumes "k < 10"
  shows "is_digit (digit_char k)" and "digit_val (digit_char k) = k" and "\<not> is_ws (digit_char k)"
    and "digit_char k \<notin> set ''xXoObB+-I''" and "digit_char k = CHR ''0'' \<longleftrightarrow> k = 0"
  using digit_cases [OF assms]
  by (auto simp: is_digit_def digit_val_def digit_char_def is_ws_def)

lemma digits_of_nonempty: "digits_of n \<noteq> []"
  by (subst digits_of.simps) simp

lemma digits_of_digits: "list_all is_digit (digits_of n)"
  by (induction n rule: digits_of.induct) (subst digits_of.simps, simp add: digit_char_props)

lemma digits_val_snoc: "digits_val (ds @ [c]) = 10 * digits_val ds + digit_val c"
  by (simp add: digits_val_def)

lemma digits_val_digits_of: "digits_val (digits_of n) = n"
proof (induction n rule: digits_of.induct)
  case (1 n)
  show ?case
  proof (cases "n < 10")
    case True
    then show ?thesis
      by (subst digits_of.simps) (simp add: digits_val_def digit_char_props)
  next
    case False
    with 1 show ?thesis
      by (subst digits_of.simps) (simp add: digits_val_snoc digit_char_props)
  qed
qed

lemma length_digits_of: "0 < k \<Longrightarrow> n < 10 ^ k \<Longrightarrow> length (digits_of n) \<le> k"
proof (induction n arbitrary: k rule: digits_of.induct)
  case (1 n)
  show ?case
  proof (cases "n < 10")
    case True
    with 1(2) show ?thesis
      by (subst digits_of.simps) simp
  next
    case False
    then obtain j where k: "k = Suc j" and j: "0 < j"
      using 1(2,3) by (cases k; cases "k - 1") auto
    have "n div 10 < 10 ^ j"
      using 1(3) k by (simp add: less_mult_imp_div_less mult.commute)
    then have "length (digits_of (n div 10)) \<le> j"
      using 1(1) [OF False j] by simp
    with False k show ?thesis
      by (subst digits_of.simps) simp
  qed
qed

lemma dropWhile_none: "xs = [] \<or> \<not> P (hd xs) \<Longrightarrow> dropWhile P xs = xs"
  by (cases xs) auto

lemma trim_id:
  assumes "list_all (\<lambda>c. \<not> is_ws c) s"
  shows "trim s = s"
proof -
  have a: "dropWhile is_ws s = s"
    using assms by (intro dropWhile_none) (cases s; simp)
  have "list_all (\<lambda>c. \<not> is_ws c) (rev s)"
    using assms by (simp add: list_all_iff)
  then have b: "dropWhile is_ws (rev s) = rev s"
    by (intro dropWhile_none) (cases "rev s"; simp)
  show ?thesis
    by (simp add: trim_def a b)
qed

lemma is_digit_props:
  assumes "is_digit c"
  shows "\<not> is_ws c" and "c \<notin> set ''xXoObB+-I.eE''"
  using assms by (auto simp: is_digit_def is_ws_def)

lemma radix_prefix_digits: "list_all is_digit s \<Longrightarrow> radix_prefix s = None"
  by (cases s; cases "tl s") (auto simp: radix_prefix_def dest: is_digit_props(2))

lemma unsigned_decimal_digits:
  assumes "list_all is_digit s" and "s \<noteq> []"
  shows "unsigned_decimal s = Some (digits_val s, 0)"
proof -
  have t: "takeWhile is_digit s = s" and d: "dropWhile is_digit s = []"
    using assms(1) by (simp_all add: list_all_iff)
  show ?thesis
    using assms(2) by (simp add: unsigned_decimal_def t d exponent_part_def)
qed

lemma StringToNumber_digits:
  assumes "list_all is_digit s" and "s \<noteq> []"
  shows "StringToNumber s = Dec (int (digits_val s)) 0"
proof -
  have ws: "list_all (\<lambda>c. \<not> is_ws c) s"
    using assms(1) by (auto simp: list_all_iff dest: is_digit_props(1))
  obtain c r where s: "s = c # r"
    using assms(2) by (cases s) auto
  have c: "is_digit c"
    using assms(1) s by simp
  have sign: "c \<noteq> CHR ''-''" "c \<noteq> CHR ''+''" and inf: "c # r \<noteq> ''Infinity''"
    using is_digit_props(2) [OF c] by auto
  have rp: "radix_prefix (c # r) = None"
    using radix_prefix_digits [OF assms(1)] s by simp
  have ud: "unsigned_decimal (c # r) = Some (digits_val (c # r), 0)"
    using unsigned_decimal_digits [OF assms] s by simp
  show ?thesis
    unfolding StringToNumber_def trim_id [OF ws] Let_def
    using sign inf by (simp add: s rp ud)
qed

lemma Number_digits_of: "Number (Some (digits_of n)) = Dec (int n) 0"
  by (simp add: Number_def StringToNumber_digits digits_of_digits digits_of_nonempty
      digits_val_digits_of)

lemma strip_zeros_replicate:
  "rev (dropWhile (\<lambda>c. c = z) (rev ds)) @ replicate (length ds - length (dropWhile (\<lambda>c. c = z) (rev ds))) z = ds"
proof -
  let ?P = "\<lambda>c. c = z"
  have tw: "takeWhile ?P (rev ds) = replicate (length (takeWhile ?P (rev ds))) z"
    by (intro replicate_eqI) (auto dest: set_takeWhileD)
  have "length (takeWhile ?P (rev ds)) + length (dropWhile ?P (rev ds)) = length ds"
    by (metis length_append length_rev takeWhile_dropWhile_id)
  then have len: "length ds - length (dropWhile ?P (rev ds)) = length (takeWhile ?P (rev ds))"
    by simp
  have "rev (dropWhile ?P (rev ds)) @ rev (takeWhile ?P (rev ds)) =
    rev (takeWhile ?P (rev ds) @ dropWhile ?P (rev ds))"
    by (simp only: rev_append)
  also have "\<dots> = ds"
    by simp
  finally have "rev (dropWhile ?P (rev ds)) @ rev (takeWhile ?P (rev ds)) = ds" .
  moreover have "rev (takeWhile ?P (rev ds)) = replicate (length (takeWhile ?P (rev ds))) z"
    by (subst tw) simp
  ultimately show ?thesis
    using len by simp
qed

lemma positive_to_string_integer:
  assumes "length (digits_of m) \<le> 21"
  shows "positive_to_string m 0 = digits_of m"
proof -
  let ?ds = "digits_of m"
  let ?s = "rev (dropWhile (\<lambda>c. c = CHR ''0'') (rev ?ds))"
  have k: "length ?s \<le> length ?ds"
    using length_dropWhile_le [of _ "rev ?ds"] by simp
  have "positive_to_string m 0 = ?s @ replicate (length ?ds - length ?s) (CHR ''0'')"
    using assms k by (simp add: positive_to_string_def Let_def nat_diff_distrib')
  also have "\<dots> = ?ds"
    using strip_zeros_replicate [of "CHR ''0''" ?ds] by simp
  finally show ?thesis .
qed

lemma String_natural:
  assumes "0 < m" and "m < 10 ^ 21"
  shows "String (Dec (int m) 0) = digits_of m"
  using assms by (simp add: String_def positive_to_string_integer length_digits_of)

lemma next_decimal:
  assumes "n < 2 ^ 53"
  shows "String (plus_one (Number (Some (digits_of n)))) = digits_of (n + 1)"
proof -
  have "(2::nat) ^ 53 < 10 ^ 21"
    by simp
  with assms have "n + 1 < 10 ^ 21"
    by linarith
  moreover have "plus_one (Number (Some (digits_of n))) = Dec (int (n + 1)) 0"
    by (simp add: Number_digits_of plus_one_def)
  ultimately show ?thesis
    using String_natural [of "n + 1"] by simp
qed

section \<open>The paths of \<open>qualifiedSave\<close>\<close>

lemma names_calls [simp]: "names (d\<lparr>calls := c\<rparr>) = names d"
  by (simp add: names_def)

lemma latest_where_calls [simp]: "latest_where P (d\<lparr>calls := c\<rparr>) = latest_where P d"
  by (simp add: latest_where_def)

lemma run_query_ok:
  "run_query None c P d = (Inr (latest_where P d), d\<lparr>calls := calls d @ [c]\<rparr>)"
  by (simp add: run_query_def Let_def)

lemma run_query_fault:
  "run_query (Some e) c P d = (Inl e, d\<lparr>calls := calls d @ [c]\<rparr>)"
  by (simp add: run_query_def Let_def)

text \<open>The two ways through \<open>qualifiedSave\<close> after a collision of the first insert.\<close>


lemma qualifiedSave_owned:
  assumes "validate (this\<lparr>baseName := Some (name this)\<rparr>)"
    and "name this \<in> names d"
    and "save1_fault fs = None" and "query1_fault fs = None"
    and "latest_where (\<lambda>r. baseName r = Some (name this) \<and> thingID r = thingID this) d = s0 # rest"
  shows "qualifiedSave fs d this =
    (Inr s0, d\<lparr>calls := calls d @ [Insert (this\<lparr>baseName := Some (name this)\<rparr>),
                                   FilterBaseNameThingID (name this) (thingID this)]\<rparr>)"
  using assms(2,5) unfolding qualifiedSave_def Let_def assms(3,4)
  by (simp add: save_collides [OF assms(1)] filter_baseName_thingID_def run_query_ok)

lemma qualifiedSave_retry:
  assumes "validate (this\<lparr>baseName := Some (name this)\<rparr>)"
    and "name this \<in> names d"
    and "save1_fault fs = None" and "query1_fault fs = None" and "query2_fault fs = None"
    and "latest_where (\<lambda>r. baseName r = Some (name this) \<and> thingID r = thingID this) d = []"
  shows "qualifiedSave fs d this =
    save (save2_fault fs)
      (d\<lparr>calls := calls d @ [Insert (this\<lparr>baseName := Some (name this)\<rparr>),
                            FilterBaseNameThingID (name this) (thingID this),
                            FilterBaseName (name this)]\<rparr>)
      (qualify (this\<lparr>baseName := Some (name this)\<rparr>)
         (latestQualifier (latest_where (\<lambda>r. baseName r = Some (name this)) d)))"
  using assms(2,6) unfolding qualifiedSave_def Let_def assms(3,4,5)
  by (simp add: save_collides [OF assms(1)] filter_baseName_thingID_def filter_baseName_def
      run_query_ok)

lemma validate_qualify:
  "validate (qualify slug q) \<longleftrightarrow>
     length (name slug @ ''-'' @ String q) \<le> 125 \<and>
     (case baseName slug of None \<Rightarrow> True | Some b \<Rightarrow> length b \<le> 100) \<and>
     length (String q) \<le> 25"
  by (auto simp: validate_def qualify_def)

lemma qualifiedSave_retry_inserts:
  assumes "qualifierPart this = None" and "length (name this) \<le> 100"
    and "name this \<in> names d"
    and "save1_fault fs = None" and "query1_fault fs = None" and "query2_fault fs = None"
    and "save2_fault fs = None"
    and "latest_where (\<lambda>r. baseName r = Some (name this) \<and> thingID r = thingID this) d = []"
    and "q = String (latestQualifier (latest_where (\<lambda>r. baseName r = Some (name this)) d))"
    and "length q \<le> 25" and "length (name this @ ''-'' @ q) \<le> 125"
    and "name this @ ''-'' @ q \<notin> names d"
  shows "qualifiedSave fs d this =
    (Inr (this\<lparr>name := name this @ ''-'' @ q, baseName := Some (name this), qualifierPart := Some q\<rparr>),
     d\<lparr>calls := calls d @
          [Insert (this\<lparr>baseName := Some (name this)\<rparr>),
           FilterBaseNameThingID (name this) (thingID this),
           FilterBaseName (name this),
           Insert (this\<lparr>name := name this @ ''-'' @ q, baseName := Some (name this),
                         qualifierPart := Some q\<rparr>)],
        rows := rows d @
          [this\<lparr>name := name this @ ''-'' @ q, baseName := Some (name this),
                 qualifierPart := Some q\<rparr>]\<rparr>)"
proof -
  let ?slug = "this\<lparr>baseName := Some (name this)\<rparr>"
  let ?n = "latestQualifier (latest_where (\<lambda>r. baseName r = Some (name this)) d)"
  let ?d3 = "d\<lparr>calls := calls d @ [Insert ?slug,
     FilterBaseNameThingID (name this) (thingID this), FilterBaseName (name this)]\<rparr>"
  have v1: "validate ?slug"
    using assms(1,2) by (simp add: validate_candidate)
  have q: "qualify ?slug ?n =
    this\<lparr>name := name this @ ''-'' @ q, baseName := Some (name this), qualifierPart := Some q\<rparr>"
    by (simp add: qualify_def assms(9))
  have v2: "validate (qualify ?slug ?n)"
    using assms(2,10,11) by (simp add: validate_qualify assms(9) [symmetric])
  have free: "name (qualify ?slug ?n) \<notin> names ?d3"
    using assms(12) by (simp add: q)
  have "qualifiedSave fs d this = save None ?d3 (qualify ?slug ?n)"
    using qualifiedSave_retry [OF v1 assms(3,4,5,6,8)] by (simp add: assms(7))
  also have "\<dots> = (Inr (qualify ?slug ?n),
      ?d3\<lparr>calls := calls ?d3 @ [Insert (qualify ?slug ?n)], rows := rows ?d3 @ [qualify ?slug ?n]\<rparr>)"
    by (rule save_inserts [OF v2 free])
  finally show ?thesis
    by (simp add: q)
qed

lemma length_next_digits:
  assumes "n < 2 ^ 53"
  shows "length (digits_of (n + 1)) \<le> 16"
proof -
  have "(2::nat) ^ 53 < 10 ^ 16"
    by simp
  with assms have "n + 1 < 10 ^ 16"
    by linarith
  then show ?thesis
    by (intro length_digits_of) simp_all
qed

lemma latestQualifier_digits:
  assumes "n < 2 ^ 53" and "qualifierPart l = Some (digits_of n)"
  shows "String (latestQualifier (l # ls)) = digits_of (n + 1)"
  using next_decimal [OF assms(1)]
  by (simp add: latestQualifier_def assms(2) isNaN_def Number_digits_of)


section \<open>Evaluation of examples\<close>

lemmas store_eval =
  qualifiedSave_def save_def validate_def names_def filter_baseName_thingID_def
  filter_baseName_def run_query_def latest_where_def orderBy_desc_createdOn_def limit_def
  latestQualifier_def qualify_def isNaN_def Let_def no_faults_def

lemmas number_eval =
  Number_def StringToNumber_def trim_def is_ws_def radix_prefix_def radix_literal_def
  radix_digit_def unsigned_decimal_def exponent_part_def is_digit_def digit_val_def
  digits_val_def plus_one_def String_def positive_to_string_def digits_of.simps digit_char_def
  Let_def

lemma String_next_fraction: "String (plus_one (Number (Some ''2.5''))) = ''3.5''"
  by (simp add: number_eval)
lemma Number_abc: "Number (Some ''abc'') = NaN"
  by (simp add: number_eval)
lemma String_two: "String (Dec 2 0) = ''2''"
  by (simp add: number_eval)


lemma digits_of_2: "digits_of 2 = ''2''" and digits_of_3: "digits_of 3 = ''3''"
  by (simp_all add: digits_of.simps digit_char_def)

section \<open>Disambiguation\<close>

lemma digits_of_Suc_Suc_0: "digits_of (Suc (Suc 0)) = ''2''"
  by (metis digits_of_2 numeral_2_eq_2)

lemma latestQualifier_unqualified:
  "qualifierPart l = None \<Longrightarrow> String (latestQualifier (l # ls)) = digits_of (1 + 1)"
  by (simp add: latestQualifier_def Number_def isNaN_def String_two digits_of_Suc_Suc_0)

lemma Allocate_crowded:
  "Allocate no_faults crowded_store ''my-review'' subjectC actorZ 3000 =
     (Inl DuplicatePrimaryKeyError,
      crowded_store\<lparr>calls :=
        [Insert ((candidate ''my-review'' subjectC actorZ 3000)\<lparr>baseName := Some ''my-review''\<rparr>),
         FilterBaseNameThingID ''my-review'' subjectC,
         FilterBaseName ''my-review'',
         Insert slugC]\<rparr>)"
  by (simp add: Allocate_def candidate_def crowded_store_def slugM_def slugA_def slugB_def
      slugC_def store_eval number_eval subjectA_def subjectB_def subjectC_def subjectD_def)

text \<open>
  Claim C5, as stated, fails when the name the retry computes is already taken. In a
  store where \<open>my-review-3\<close> was itself requested as a name before \<open>my-review\<close> and
  \<open>my-review-2\<close> were allocated, a call for \<open>my-review\<close> by a new subject collides, finds no
  record of its own, reads the qualifier \<open>2\<close> off the most recent record sharing the base
  name and tries \<open>my-review-3\<close>: the second insert collides and the call is rejected with
  the duplicate-key error. No record is returned and no row is added.
\<close>

theorem retry_qualifier_successor_counterexample:
  "rows crowded_store = [slugM, slugA, slugB] \<and> name slugM = ''my-review-3'' \<and>
   sharing ''my-review'' crowded_store = [slugA, slugB] \<and>
   qualifierPart slugB = Some ''2'' \<and> createdOn slugA < createdOn slugB \<and>
   thingID slugA \<noteq> subjectC \<and> thingID slugB \<noteq> subjectC \<and>
   fst (Allocate no_faults crowded_store ''my-review'' subjectC actorZ 3000) =
     Inl DuplicatePrimaryKeyError \<and>
   rows (snd (Allocate no_faults crowded_store ''my-review'' subjectC actorZ 3000)) =
     [slugM, slugA, slugB] \<and>
   calls (snd (Allocate no_faults crowded_store ''my-review'' subjectC actorZ 3000)) =
     [Insert ((candidate ''my-review'' subjectC actorZ 3000)\<lparr>baseName := Some ''my-review''\<rparr>),
      FilterBaseNameThingID ''my-review'' subjectC,
      FilterBaseName ''my-review'',
      Insert \<lparr>name = ''my-review-3'', baseName = Some ''my-review'', qualifierPart = Some ''3'',
              thingID = subjectC, createdOn = 3000, createdBy = actorZ\<rparr>]"
proof -
  have "rows crowded_store = [slugM, slugA, slugB]" "calls crowded_store = []"
    by (simp_all add: crowded_store_def)
  moreover have "sharing ''my-review'' crowded_store = [slugA, slugB]"
    by (simp add: sharing_def crowded_store_def slugM_def slugA_def slugB_def)
  moreover have "name slugM = ''my-review-3''" "qualifierPart slugB = Some ''2''"
    "createdOn slugA < createdOn slugB" "thingID slugA \<noteq> subjectC" "thingID slugB \<noteq> subjectC"
    by (simp_all add: slugM_def slugA_def slugB_def subjectA_def subjectB_def subjectC_def)
  ultimately show ?thesis
    by (simp add: Allocate_crowded slugC_def)
qed

text \<open>
  Claim C5, amended. When the first insert collides, the requesting subject owns no record
  of that base name, and the name \<open>baseName-q\<close> is not yet taken, the call returns a record
  named \<open>baseName-q\<close>, where \<open>q\<close> is one greater than the number \<open>n\<close> of the most recently
  created record sharing the base name; that record's number is its decimal
  \<open>qualifierPart\<close> (below \<open>2 ^ 53\<close>), and 1 for the unqualified record. The call is run
  without store faults; the new record is persisted, with \<open>baseName\<close> and \<open>qualifierPart\<close>
  set.
\<close>

theorem retry_qualifier_successor:
  assumes "qualifierPart this = None" and "length (name this) \<le> 100"
    and "name this \<in> names d"
    and "latest_where (\<lambda>r. baseName r = Some (name this) \<and> thingID r = thingID this) d = []"
    and "latest_where (\<lambda>r. baseName r = Some (name this)) d = [l]"
    and "qualifierPart l = None \<and> n = 1 \<or> qualifierPart l = Some (digits_of n) \<and> n < 2 ^ 53"
    and "name this @ ''-'' @ digits_of (n + 1) \<notin> names d"
  shows "qualifiedSave no_faults d this =
    (Inr (this\<lparr>name := name this @ ''-'' @ digits_of (n + 1), baseName := Some (name this),
               qualifierPart := Some (digits_of (n + 1))\<rparr>),
     d\<lparr>calls := calls d @
          [Insert (this\<lparr>baseName := Some (name this)\<rparr>),
           FilterBaseNameThingID (name this) (thingID this),
           FilterBaseName (name this),
           Insert (this\<lparr>name := name this @ ''-'' @ digits_of (n + 1),
                         baseName := Some (name this),
                         qualifierPart := Some (digits_of (n + 1))\<rparr>)],
        rows := rows d @
          [this\<lparr>name := name this @ ''-'' @ digits_of (n + 1), baseName := Some (name this),
                 qualifierPart := Some (digits_of (n + 1))\<rparr>]\<rparr>)"
proof -
  have n: "n < 2 ^ 53"
    using assms(6) by auto
  have "String (latestQualifier [l]) = digits_of (n + 1)"
    using assms(6) latestQualifier_unqualified [of l "[]"] latestQualifier_digits [of n l "[]"]
    by auto
  then have q: "digits_of (n + 1) =
      String (latestQualifier (latest_where (\<lambda>r. baseName r = Some (name this)) d))"
    by (simp add: assms(5))
  have len: "length (digits_of (n + 1)) \<le> 25"
    "length (name this @ ''-'' @ digits_of (n + 1)) \<le> 125"
    using length_next_digits [OF n] assms(2) by simp_all
  show ?thesis
    by (rule qualifiedSave_retry_inserts [OF assms(1,2,3) _ _ _ _ assms(4) q len assms(7)])
      (simp_all add: no_faults_def)
qed

text \<open>
  The spec's example (a store holding only \<open>my-review\<close>, then \<open>subjectB\<close>), and the next
  allocation after it.
\<close>

theorem retry_qualifier_successor_witness:
  "qualifierPart (candidate ''my-review'' subjectB actorY 2000) = None \<and>
   length (name (candidate ''my-review'' subjectB actorY 2000)) \<le> 100 \<and>
   name (candidate ''my-review'' subjectB actorY 2000) \<in> names store1 \<and>
   latest_where (\<lambda>r. baseName r = Some ''my-review'' \<and> thingID r = subjectB) store1 = [] \<and>
   latest_where (\<lambda>r. baseName r = Some ''my-review'') store1 = [slugA] \<and>
   qualifierPart slugA = None \<and>
   ''my-review'' @ ''-'' @ digits_of (1 + 1) \<notin> names store1 \<and>
   fst (Allocate no_faults store1 ''my-review'' subjectB actorY 2000) =
     Inr \<lparr>name = ''my-review-2'', baseName = Some ''my-review'', qualifierPart = Some ''2'',
          thingID = subjectB, createdOn = 2000, createdBy = actorY\<rparr> \<and>
   rows (snd (Allocate no_faults store1 ''my-review'' subjectB actorY 2000)) = [slugA, slugB] \<and>
   latest_where (\<lambda>r. baseName r = Some ''my-review'' \<and> thingID r = subjectC) store2 = [] \<and>
   latest_where (\<lambda>r. baseName r = Some ''my-review'') store2 = [slugB] \<and>
   qualifierPart slugB = Some (digits_of 2) \<and>
   ''my-review'' @ ''-'' @ digits_of (2 + 1) \<notin> names store2 \<and>
   fst (Allocate no_faults store2 ''my-review'' subjectC actorZ 3000) =
     Inr \<lparr>name = ''my-review-3'', baseName = Some ''my-review'', qualifierPart = Some ''3'',
          thingID = subjectC, createdOn = 3000, createdBy = actorZ\<rparr>"
proof -
  have a1: "latest_where (\<lambda>r. baseName r = Some ''my-review'' \<and> thingID r = subjectB) store1 = []"
    by (simp add: latest_where_def store1_def slugA_def subjectA_def subjectB_def
        orderBy_desc_createdOn_def limit_def)
  have b1: "latest_where (\<lambda>r. baseName r = Some ''my-review'') store1 = [slugA]"
    by (simp add: latest_where_def store1_def slugA_def orderBy_desc_createdOn_def limit_def)
  have c1: "''my-review'' @ ''-'' @ digits_of (1 + 1) \<notin> names store1"
    by (simp add: digits_of_Suc_Suc_0 names_def store1_def slugA_def)
  have d1: "qualifierPart slugA = None"
    by (simp add: slugA_def)
  have a2: "latest_where (\<lambda>r. baseName r = Some ''my-review'' \<and> thingID r = subjectC) store2 = []"
    by (simp add: latest_where_def store2_def slugA_def slugB_def subjectA_def subjectB_def
        subjectC_def orderBy_desc_createdOn_def limit_def)
  have b2: "latest_where (\<lambda>r. baseName r = Some ''my-review'') store2 = [slugB]"
    by (simp add: latest_where_def store2_def slugA_def slugB_def orderBy_desc_createdOn_def
        limit_def)
  have c2: "''my-review'' @ ''-'' @ digits_of (2 + 1) \<notin> names store2"
    by (simp add: digits_of_3 names_def store2_def slugA_def slugB_def)
  have d2: "qualifierPart slugB = Some (digits_of 2)"
    by (simp add: digits_of_2 slugB_def)
  have e: "''my-review'' \<in> names store1" "''my-review'' \<in> names store2"
    by (simp_all add: names_def store1_def store2_def slugA_def)
  show ?thesis
    using retry_qualifier_successor [of "candidate ''my-review'' subjectB actorY 2000" store1 slugA 1]
      retry_qualifier_successor [of "candidate ''my-review'' subjectC actorZ 3000" store2 slugB 2]
      a1 b1 c1 d1 a2 b2 c2 d2 e
    by (simp add: candidate_def Allocate_def digits_of_Suc_Suc_0 digits_of_3 store1_def slugB_def)
qed

section \<open>Qualifiers that are not integers of at least two\<close>

lemma Number_empty: "Number (Some '''') = Dec 0 0"
  by (simp add: number_eval)


lemma String_one: "String (plus_one (Dec 0 0)) = ''1''"
  by (simp add: number_eval)




section \<open>The fallback qualifier\<close>

lemma latestQualifier_fallback:
  assumes "slugs = [] \<or> (\<exists>l. slugs = [l] \<and> isNaN (Number (qualifierPart l)))"
  shows "String (latestQualifier slugs) = ''2''"
  using assms by (auto simp: latestQualifier_def String_two)

text \<open>
  Claim C6, as stated, fails: a record whose \<open>qualifierPart\<close> is the empty string has no
  numeric qualifier, yet \<open>Number\<close> reads the empty string as 0 and the next allocation
  uses the qualifier \<open>1\<close>, not \<open>2\<close>.
\<close>

theorem qualifier_fallback_counterexample:
  "rows (store_with (Some '''')) =
     [\<lparr>name = ''my-review'', baseName = Some ''my-review'', qualifierPart = Some '''',
       thingID = subjectA, createdOn = 1000, createdBy = actorX\<rparr>] \<and>
   fst (Allocate no_faults (store_with (Some '''')) ''my-review'' subjectB actorY 2000) =
     Inr \<lparr>name = ''my-review-1'', baseName = Some ''my-review'', qualifierPart = Some ''1'',
          thingID = subjectB, createdOn = 2000, createdBy = actorY\<rparr>"
  by (simp add: Allocate_def candidate_def store_with_def slugA_def store_eval
      Number_empty String_one subjectA_def subjectB_def)

text \<open>
  Claim C6, amended. On the disambiguation path, when no record shares the requested
  base name, or the most recent one has no \<open>qualifierPart\<close> or one that \<open>Number\<close> maps to
  \<open>NaN\<close> (a string that is not a numeric literal of JavaScript; the empty string and
  strings of white space are literals for 0), the next allocation uses the qualifier \<open>2\<close>.
\<close>

theorem qualifier_fallback:
  assumes "qualifierPart this = None" and "length (name this) \<le> 100"
    and "name this \<in> names d"
    and "latest_where (\<lambda>r. baseName r = Some (name this) \<and> thingID r = thingID this) d = []"
    and "latest_where (\<lambda>r. baseName r = Some (name this)) d = [] \<or>
         (\<exists>l. latest_where (\<lambda>r. baseName r = Some (name this)) d = [l] \<and>
              isNaN (Number (qualifierPart l)))"
    and "name this @ ''-2'' \<notin> names d"
  shows "fst (qualifiedSave no_faults d this) =
      Inr (this\<lparr>name := name this @ ''-2'', baseName := Some (name this),
                qualifierPart := Some ''2''\<rparr>) \<and>
    isNaN (Number None) \<and> isNaN (Number (Some ''abc''))"
proof -
  have q: "''2'' = String (latestQualifier (latest_where (\<lambda>r. baseName r = Some (name this)) d))"
    using latestQualifier_fallback [OF assms(5)] by simp
  have len: "length ''2'' \<le> 25" "length (name this @ ''-'' @ ''2'') \<le> 125"
    using assms(2) by simp_all
  have free: "name this @ ''-'' @ ''2'' \<notin> names d"
    using assms(6) by simp
  have "fst (qualifiedSave no_faults d this) =
      Inr (this\<lparr>name := name this @ ''-'' @ ''2'', baseName := Some (name this),
                qualifierPart := Some ''2''\<rparr>)"
    by (subst qualifiedSave_retry_inserts [OF assms(1,2,3) _ _ _ _ assms(4) q len free])
      (simp_all add: no_faults_def)
  then show ?thesis
    by (simp add: isNaN_def Number_abc) (simp add: Number_def)
qed

text \<open>A record with the qualifier \<open>abc\<close>: the next allocation uses \<open>2\<close>.\<close>

theorem qualifier_fallback_witness:
  "qualifierPart (candidate ''my-review'' subjectB actorY 2000) = None \<and>
   length (name (candidate ''my-review'' subjectB actorY 2000)) \<le> 100 \<and>
   ''my-review'' \<in> names (store_with (Some ''abc'')) \<and>
   latest_where (\<lambda>r. baseName r = Some ''my-review'' \<and> thingID r = subjectB)
     (store_with (Some ''abc'')) = [] \<and>
   latest_where (\<lambda>r. baseName r = Some ''my-review'') (store_with (Some ''abc'')) =
     [slugA\<lparr>qualifierPart := Some ''abc''\<rparr>] \<and>
   isNaN (Number (qualifierPart (slugA\<lparr>qualifierPart := Some ''abc''\<rparr>))) \<and>
   ''my-review-2'' \<notin> names (store_with (Some ''abc'')) \<and>
   fst (Allocate no_faults (store_with (Some ''abc'')) ''my-review'' subjectB actorY 2000) =
     Inr \<lparr>name = ''my-review-2'', baseName = Some ''my-review'', qualifierPart = Some ''2'',
          thingID = subjectB, createdOn = 2000, createdBy = actorY\<rparr>"
proof -
  let ?d = "store_with (Some ''abc'')"
  have a: "latest_where (\<lambda>r. baseName r = Some ''my-review'' \<and> thingID r = subjectB) ?d = []"
    by (simp add: latest_where_def store_with_def slugA_def subjectA_def subjectB_def
        orderBy_desc_createdOn_def limit_def)
  have b: "latest_where (\<lambda>r. baseName r = Some ''my-review'') ?d =
      [slugA\<lparr>qualifierPart := Some ''abc''\<rparr>]"
    by (simp add: latest_where_def store_with_def slugA_def orderBy_desc_createdOn_def limit_def)
  have c: "''my-review-2'' \<notin> names ?d" "''my-review'' \<in> names ?d"
    by (simp_all add: names_def store_with_def slugA_def)
  have n: "isNaN (Number (qualifierPart (slugA\<lparr>qualifierPart := Some ''abc''\<rparr>)))"
    by (simp add: isNaN_def Number_abc)
  show ?thesis
    using qualifier_fallback [of "candidate ''my-review'' subjectB actorY 2000" ?d] a b c n
    by (simp add: candidate_def Allocate_def)
qed

section \<open>Failures of the store\<close>

text \<open>
  Claim C9. A failure of the store that is not a duplicate-key collision is passed to the
  caller unchanged. When the first insert fails with such an error \<open>e\<close>, the call is
  rejected with \<open>e\<close> after that one request: no query, no second insert, no new row.
  A failure of either query or of the second insert is rejected with the error of that
  request in the same way, and nothing is requested after it.
\<close>

theorem store_failure_propagates:
  assumes "err_name e \<noteq> ''DuplicatePrimaryKeyError''"
    and "qualifierPart this = None" and "length (name this) \<le> 100"
    and "slug = this\<lparr>baseName := Some (name this)\<rparr>"
    and "q1 = FilterBaseNameThingID (name this) (thingID this)"
    and "q2 = FilterBaseName (name this)"
  shows "(save1_fault fs = Some e \<longrightarrow>
            qualifiedSave fs d this = (Inl e, d\<lparr>calls := calls d @ [Insert slug]\<rparr>)) \<and>
         (save1_fault fs = None \<and> name this \<in> names d \<and> query1_fault fs = Some e \<longrightarrow>
            qualifiedSave fs d this = (Inl e, d\<lparr>calls := calls d @ [Insert slug, q1]\<rparr>)) \<and>
         (save1_fault fs = None \<and> name this \<in> names d \<and> query1_fault fs = None \<and>
          latest_where (\<lambda>r. baseName r = Some (name this) \<and> thingID r = thingID this) d = [] \<and>
          query2_fault fs = Some e \<longrightarrow>
            qualifiedSave fs d this = (Inl e, d\<lparr>calls := calls d @ [Insert slug, q1, q2]\<rparr>)) \<and>
         (save1_fault fs = None \<and> name this \<in> names d \<and> query1_fault fs = None \<and>
          latest_where (\<lambda>r. baseName r = Some (name this) \<and> thingID r = thingID this) d = [] \<and>
          query2_fault fs = None \<and> save2_fault fs = Some e \<and>
          slug2 = qualify slug (latestQualifier (latest_where (\<lambda>r. baseName r = Some (name this)) d)) \<and>
          validate slug2 \<longrightarrow>
            qualifiedSave fs d this =
              (Inl e, d\<lparr>calls := calls d @ [Insert slug, q1, q2, Insert slug2]\<rparr>))"
proof -
  have v: "validate (this\<lparr>baseName := Some (name this)\<rparr>)"
    using assms(2,3) by (simp add: validate_candidate)
  have 1: "qualifiedSave fs d this = (Inl e, d\<lparr>calls := calls d @ [Insert slug]\<rparr>)"
    if "save1_fault fs = Some e"
    using assms(1) unfolding qualifiedSave_def Let_def that assms(4)
    by (simp add: save_fault [OF v])
  have 2: "qualifiedSave fs d this = (Inl e, d\<lparr>calls := calls d @ [Insert slug, q1]\<rparr>)"
    if "save1_fault fs = None" "name this \<in> names d" "query1_fault fs = Some e"
    using that(2) unfolding qualifiedSave_def Let_def that(1,3) assms(4,5)
    by (simp add: save_collides [OF v] filter_baseName_thingID_def run_query_fault)
  have 3: "qualifiedSave fs d this = (Inl e, d\<lparr>calls := calls d @ [Insert slug, q1, q2]\<rparr>)"
    if "save1_fault fs = None" "name this \<in> names d" "query1_fault fs = None"
      "latest_where (\<lambda>r. baseName r = Some (name this) \<and> thingID r = thingID this) d = []"
      "query2_fault fs = Some e"
    using that(2,4) unfolding qualifiedSave_def Let_def that(1,3,5) assms(4,5,6)
    by (simp add: save_collides [OF v] filter_baseName_thingID_def filter_baseName_def
        run_query_fault run_query_ok)
  have 4: "qualifiedSave fs d this =
      (Inl e, d\<lparr>calls := calls d @ [Insert slug, q1, q2, Insert slug2]\<rparr>)"
    if "save1_fault fs = None" "name this \<in> names d" "query1_fault fs = None"
      "latest_where (\<lambda>r. baseName r = Some (name this) \<and> thingID r = thingID this) d = []"
      "query2_fault fs = None" "save2_fault fs = Some e"
      "slug2 = qualify slug (latestQualifier (latest_where (\<lambda>r. baseName r = Some (name this)) d))"
      "validate slug2"
    using that(8) unfolding qualifiedSave_retry [OF v that(2,1,3,5,4)] that(6,7) assms(4,5,6)
    by (simp add: save_fault)
  show ?thesis
    using 1 2 3 4 by blast
qed

text \<open>
  A timeout at each of the four store operations of \<open>Allocate("my-review", subjectB, actorY)\<close>
  on the store holding \<open>my-review\<close>.
\<close>

theorem store_failure_propagates_witness:
  "err_name timeout \<noteq> ''DuplicatePrimaryKeyError'' \<and>
   ''my-review'' \<in> names store1 \<and>
   latest_where (\<lambda>r. baseName r = Some ''my-review'' \<and> thingID r = subjectB) store1 = [] \<and>
   Allocate (fault_at 1 timeout) store1 ''my-review'' subjectB actorY 2000 =
     (Inl timeout,
      store1\<lparr>calls := [Insert ((candidate ''my-review'' subjectB actorY 2000)
                                  \<lparr>baseName := Some ''my-review''\<rparr>)]\<rparr>) \<and>
   Allocate (fault_at 2 timeout) store1 ''my-review'' subjectB actorY 2000 =
     (Inl timeout,
      store1\<lparr>calls := [Insert ((candidate ''my-review'' subjectB actorY 2000)
                                  \<lparr>baseName := Some ''my-review''\<rparr>),
                        FilterBaseNameThingID ''my-review'' subjectB]\<rparr>) \<and>
   Allocate (fault_at 3 timeout) store1 ''my-review'' subjectB actorY 2000 =
     (Inl timeout,
      store1\<lparr>calls := [Insert ((candidate ''my-review'' subjectB actorY 2000)
                                  \<lparr>baseName := Some ''my-review''\<rparr>),
                        FilterBaseNameThingID ''my-review'' subjectB,
                        FilterBaseName ''my-review'']\<rparr>) \<and>
   Allocate (fault_at 4 timeout) store1 ''my-review'' subjectB actorY 2000 =
     (Inl timeout,
      store1\<lparr>calls := [Insert ((candidate ''my-review'' subjectB actorY 2000)
                                  \<lparr>baseName := Some ''my-review''\<rparr>),
                        FilterBaseNameThingID ''my-review'' subjectB,
                        FilterBaseName ''my-review'',
                        Insert slugB]\<rparr>)"
proof -
  let ?cand = "candidate ''my-review'' subjectB actorY 2000"
  let ?slug = "?cand\<lparr>baseName := Some ''my-review''\<rparr>"
  have e: "err_name timeout \<noteq> ''DuplicatePrimaryKeyError''"
    by (simp add: timeout_def)
  have c: "name ?cand = ''my-review''" "thingID ?cand = subjectB" "qualifierPart ?cand = None"
    "length (name ?cand) \<le> 100"
    by (simp_all add: candidate_def)
  have n: "''my-review'' \<in> names store1"
    by (simp add: names_def store1_def slugA_def)
  have a: "latest_where (\<lambda>r. baseName r = Some ''my-review'' \<and> thingID r = subjectB) store1 = []"
    by (simp add: latest_where_def store1_def slugA_def subjectA_def subjectB_def
        orderBy_desc_createdOn_def limit_def)
  have b: "latest_where (\<lambda>r. baseName r = Some ''my-review'') store1 = [slugA]"
    by (simp add: latest_where_def store1_def slugA_def orderBy_desc_createdOn_def limit_def)
  have s2: "qualify ?slug (latestQualifier [slugA]) = slugB"
    by (simp add: qualify_def latestQualifier_def slugA_def slugB_def candidate_def Number_def
        isNaN_def String_two)
  have v: "validate slugB"
    by (simp add: validate_def slugB_def)
  have f: "save1_fault (fault_at k timeout) = (if k = 1 then Some timeout else None)"
    "query1_fault (fault_at k timeout) = (if k = 2 then Some timeout else None)"
    "query2_fault (fault_at k timeout) = (if k = 3 then Some timeout else None)"
    "save2_fault (fault_at k timeout) = (if k = 4 then Some timeout else None)" for k
    by (simp_all add: fault_at_def)
  have c0: "calls store1 = []"
    by (simp add: store1_def)
  note th = store_failure_propagates [OF e c(3,4) refl refl refl, of _ store1 slugB,
      unfolded c(1,2) a b s2]
  show ?thesis
    using th [of "fault_at 1 timeout"] th [of "fault_at 2 timeout"]
      th [of "fault_at 3 timeout"] th [of "fault_at 4 timeout"] e n a v
    by (simp add: f Allocate_def c0)
qed

section \<open>What the queries return\<close>

lemma latest_where_rows: "rows d' = rows d \<Longrightarrow> latest_where P d' = latest_where P d"
  by (simp add: latest_where_def)

lemma names_rows: "rows d' = rows d \<Longrightarrow> names d' = names d"
  by (simp add: names_def)

lemma latest_where_Nil_iff: "latest_where P d = [] \<longleftrightarrow> (\<forall>x\<in>set (rows d). \<not> P x)"
proof -
  have "latest_where P d = [] \<longleftrightarrow> sort_key (\<lambda>r. - createdOn r) (filter P (rows d)) = []"
    by (simp add: latest_where_def limit_def orderBy_desc_createdOn_def)
  also have "\<dots> \<longleftrightarrow> filter P (rows d) = []"
    by (metis length_sort length_0_conv)
  finally show ?thesis
    by (simp add: filter_empty_conv)
qed

lemma latest_where_Cons:
  assumes "latest_where P d = r # rest"
  shows "rest = []" and "r \<in> set (rows d)" and "P r"
    and "\<forall>x\<in>set (rows d). P x \<longrightarrow> createdOn x \<le> createdOn r"
proof -
  let ?f = "\<lambda>r. - createdOn r"
  let ?s = "sort_key ?f (filter P (rows d))"
  have t: "take 1 ?s = r # rest"
    using assms by (simp add: latest_where_def limit_def orderBy_desc_createdOn_def)
  then obtain ys where s: "?s = r # ys"
    by (cases ?s) auto
  show "rest = []"
    using t s by simp
  have "set ?s = {x \<in> set (rows d). P x}"
    by simp
  then have mem: "{x \<in> set (rows d). P x} = insert r (set ys)"
    using s by simp
  then show "r \<in> set (rows d)" and "P r"
    by auto
  have "sorted (map ?f ?s)"
    by (rule sorted_sort_key)
  then have "\<forall>y\<in>set ys. ?f r \<le> ?f y"
    using s by simp
  then show "\<forall>x\<in>set (rows d). P x \<longrightarrow> createdOn x \<le> createdOn r"
    using mem by auto
qed

lemma latest_where_single:
  assumes "filter P (rows d) = [r]"
  shows "latest_where P d = [r]"
  by (simp add: latest_where_def limit_def orderBy_desc_createdOn_def assms)

lemma qualifiedSave_invalid:
  "\<not> validate (this\<lparr>baseName := Some (name this)\<rparr>) \<Longrightarrow>
   qualifiedSave fs d this = (Inl ValidationError, d)"
  by (simp add: qualifiedSave_def Let_def save_invalid)

text \<open>How a call without store faults can resolve.\<close>

lemma qualifiedSave_resolved:
  assumes "qualifiedSave no_faults d this = (Inr r, d1)"
    and "slug = this\<lparr>baseName := Some (name this)\<rparr>"
  shows "validate slug \<and>
    (name this \<notin> names d \<and> r = slug \<and> rows d1 = rows d @ [r] \<or>
     name this \<in> names d \<and> rows d1 = rows d \<and>
       (\<exists>rest. latest_where (\<lambda>x. baseName x = Some (name this) \<and> thingID x = thingID this) d
          = r # rest) \<or>
     name this \<in> names d \<and> rows d1 = rows d @ [r] \<and>
       latest_where (\<lambda>x. baseName x = Some (name this) \<and> thingID x = thingID this) d = [] \<and>
       r = qualify slug (latestQualifier (latest_where (\<lambda>x. baseName x = Some (name this)) d)))"
proof -
  have v: "validate slug"
    using assms qualifiedSave_invalid [of this no_faults d] by auto
  show ?thesis
  proof (cases "name this \<in> names d")
    case False
    then have "qualifiedSave no_faults d this =
        (Inr slug, d\<lparr>calls := calls d @ [Insert slug], rows := rows d @ [slug]\<rparr>)"
      using v assms(2) by (simp add: qualifiedSave_def no_faults_def Let_def save_inserts)
    with assms(1) False v show ?thesis
      by auto
  next
    case True
    let ?own = "\<lambda>x. baseName x = Some (name this) \<and> thingID x = thingID this"
    have v': "validate (this\<lparr>baseName := Some (name this)\<rparr>)"
      using v assms(2) by simp
    show ?thesis
    proof (cases "latest_where ?own d")
      case Nil
      let ?s2 = "qualify slug (latestQualifier (latest_where (\<lambda>x. baseName x = Some (name this)) d))"
      have "qualifiedSave no_faults d this =
          save None (d\<lparr>calls := calls d @ [Insert slug,
             FilterBaseNameThingID (name this) (thingID this), FilterBaseName (name this)]\<rparr>) ?s2"
        using qualifiedSave_retry [OF v' True _ _ _ Nil, of no_faults]
        by (simp add: no_faults_def assms(2))
      with assms(1) have "r = ?s2 \<and> rows d1 = rows d @ [r]"
        by (auto simp: save_def Let_def split: if_splits)
      with True Nil v show ?thesis
        by simp
    next
      case (Cons s0 rest)
      have "qualifiedSave no_faults d this =
          (Inr s0, d\<lparr>calls := calls d @ [Insert (this\<lparr>baseName := Some (name this)\<rparr>),
             FilterBaseNameThingID (name this) (thingID this)]\<rparr>)"
        using qualifiedSave_owned [OF v' True _ _ Cons, of no_faults]
        by (simp add: no_faults_def)
      with assms(1) have "r = s0 \<and> rows d1 = rows d"
        by auto
      with True Cons v show ?thesis
        by simp
    qed
  qed
qed

section \<open>Idempotency for the owner of a base name\<close>

lemma rows_orphan_store:
  "rows orphan_store =
     [\<lparr>name = ''my-review-2'', baseName = Some ''my-review'', qualifierPart = Some ''2'',
       thingID = subjectA, createdOn = 2000, createdBy = actorX\<rparr>]"
  by (simp add: orphan_store_def delete_slug_def Allocate_def candidate_def empty_db_def
      store_eval Number_def String_two subjectA_def subjectB_def)

text \<open>
  Claim C4, as stated, fails when the record named by the base name is gone: \<open>subjectA\<close>
  holds \<open>my-review-2\<close> for the base name \<open>my-review\<close>, the first insert of \<open>my-review\<close> does
  not collide, and the call persists and returns a new record instead of the existing one.
\<close>

theorem idempotent_for_owner_counterexample:
  "rows orphan_store =
     [\<lparr>name = ''my-review-2'', baseName = Some ''my-review'', qualifierPart = Some ''2'',
       thingID = subjectA, createdOn = 2000, createdBy = actorX\<rparr>] \<and>
   fst (Allocate no_faults orphan_store ''my-review'' subjectA actorX 3000) =
     Inr \<lparr>name = ''my-review'', baseName = Some ''my-review'', qualifierPart = None,
          thingID = subjectA, createdOn = 3000, createdBy = actorX\<rparr> \<and>
   rows (snd (Allocate no_faults orphan_store ''my-review'' subjectA actorX 3000)) =
     [\<lparr>name = ''my-review-2'', baseName = Some ''my-review'', qualifierPart = Some ''2'',
       thingID = subjectA, createdOn = 2000, createdBy = actorX\<rparr>,
      \<lparr>name = ''my-review'', baseName = Some ''my-review'', qualifierPart = None,
       thingID = subjectA, createdOn = 3000, createdBy = actorX\<rparr>]"
proof -
  have n: "''my-review'' \<notin> names orphan_store"
    by (simp add: names_def rows_orphan_store)
  have "qualifiedSave no_faults orphan_store (candidate ''my-review'' subjectA actorX 3000) =
      (Inr ((candidate ''my-review'' subjectA actorX 3000)\<lparr>baseName := Some ''my-review''\<rparr>),
       orphan_store\<lparr>calls := calls orphan_store @
           [Insert ((candidate ''my-review'' subjectA actorX 3000)\<lparr>baseName := Some ''my-review''\<rparr>)],
         rows := rows orphan_store @
           [(candidate ''my-review'' subjectA actorX 3000)\<lparr>baseName := Some ''my-review''\<rparr>]\<rparr>)"
    using n by (simp add: qualifiedSave_def Let_def no_faults_def save_inserts validate_def
        candidate_def)
  then show ?thesis
    by (simp add: Allocate_def rows_orphan_store candidate_def)
qed

text \<open>
  Claim C4, amended. The allocator is idempotent per (subject, base name) as long as the
  base name itself is still taken. When a subject requests a base name for which it holds
  a record, and a record with that name exists (so that the first insert collides), the
  call returns the most recent record of that subject and base name and persists no row.
  And when a subject holding a record for a base name implies that the name is taken,
  calling Allocate twice in a row for the same desired name and subject, without store
  faults, yields the same record both times, the second call creating no row.
\<close>

theorem idempotent_for_owner:
  assumes "qualifierPart this = None" and "length (name this) \<le> 100"
    and "save1_fault fs = None" and "query1_fault fs = None"
    and "slug = this\<lparr>baseName := Some (name this)\<rparr>"
    and "q1 = FilterBaseNameThingID (name this) (thingID this)"
  shows
    "(name this \<in> names d \<and>
      (\<exists>x\<in>set (rows d). baseName x = Some (name this) \<and> thingID x = thingID this) \<longrightarrow>
      (\<exists>r. qualifiedSave fs d this = (Inr r, d\<lparr>calls := calls d @ [Insert slug, q1]\<rparr>) \<and>
           r \<in> set (rows d) \<and> baseName r = Some (name this) \<and> thingID r = thingID this \<and>
           (\<forall>x\<in>set (rows d). baseName x = Some (name this) \<and> thingID x = thingID this \<longrightarrow>
                createdOn x \<le> createdOn r))) \<and>
     (((\<exists>x\<in>set (rows d). baseName x = Some (name this) \<and> thingID x = thingID this) \<longrightarrow>
         name this \<in> names d) \<and>
      name this0 = name this \<and> thingID this0 = thingID this \<and>
      qualifiedSave no_faults d this0 = (Inr r0, d1) \<longrightarrow>
      qualifiedSave fs d1 this = (Inr r0, d1\<lparr>calls := calls d1 @ [Insert slug, q1]\<rparr>))"
proof (intro conjI impI)
  let ?own = "\<lambda>x. baseName x = Some (name this) \<and> thingID x = thingID this"
  have v: "validate (this\<lparr>baseName := Some (name this)\<rparr>)"
    using assms(1,2) by (simp add: validate_candidate)
  {
    assume a: "name this \<in> names d \<and> (\<exists>x\<in>set (rows d). ?own x)"
    then have "latest_where ?own d \<noteq> []"
      by (simp add: latest_where_Nil_iff)
    then obtain r rest where l: "latest_where ?own d = r # rest"
      by (cases "latest_where ?own d") auto
    have "qualifiedSave fs d this = (Inr r, d\<lparr>calls := calls d @ [Insert slug, q1]\<rparr>)"
      using a qualifiedSave_owned [OF v _ assms(3,4) l] by (simp add: assms(5,6))
    then show "\<exists>r. qualifiedSave fs d this = (Inr r, d\<lparr>calls := calls d @ [Insert slug, q1]\<rparr>) \<and>
           r \<in> set (rows d) \<and> baseName r = Some (name this) \<and> thingID r = thingID this \<and>
           (\<forall>x\<in>set (rows d). baseName x = Some (name this) \<and> thingID x = thingID this \<longrightarrow>
                createdOn x \<le> createdOn r)"
      using latest_where_Cons [OF l] by blast
  }
  {
    assume b: "((\<exists>x\<in>set (rows d). ?own x) \<longrightarrow> name this \<in> names d) \<and>
      name this0 = name this \<and> thingID this0 = thingID this \<and>
      qualifiedSave no_faults d this0 = (Inr r0, d1)"
    let ?slug0 = "this0\<lparr>baseName := Some (name this0)\<rparr>"
    note c = qualifiedSave_resolved [of d this0 r0 d1 ?slug0, simplified b, OF _ refl]
    have own0: "?own ?slug0" and own_q: "?own (qualify ?slug0 n)" for n
      using b by (simp_all add: qualify_def)
    have "name this \<in> names d1 \<and> (\<exists>rest. latest_where ?own d1 = r0 # rest)"
    proof -
      consider
        (fresh) "name this \<notin> names d" "r0 = ?slug0" "rows d1 = rows d @ [r0]"
      | (owned) "name this \<in> names d" "rows d1 = rows d"
          "\<exists>rest. latest_where ?own d = r0 # rest"
      | (retry) "name this \<in> names d" "rows d1 = rows d @ [r0]" "latest_where ?own d = []"
          "r0 = qualify ?slug0 (latestQualifier (latest_where (\<lambda>x. baseName x = Some (name this)) d))"
        using c b by auto
      then show ?thesis
      proof cases
        case fresh
        then have "\<forall>x\<in>set (rows d). \<not> ?own x"
          using b by blast
        then have "filter ?own (rows d1) = [r0]"
          using fresh(2,3) own0 by (simp add: filter_empty_conv)
        then have "latest_where ?own d1 = [r0]"
          by (rule latest_where_single)
        moreover have "name this \<in> names d1"
          using fresh(2,3) b by (simp add: names_def)
        ultimately show ?thesis
          by simp
      next
        case owned
        then show ?thesis
          using latest_where_rows [OF owned(2)] names_rows [OF owned(2)] by simp
      next
        case retry
        then have "\<forall>x\<in>set (rows d). \<not> ?own x"
          by (simp add: latest_where_Nil_iff)
        then have "filter ?own (rows d1) = [r0]"
          using retry(2,4) own_q by (simp add: filter_empty_conv)
        then have "latest_where ?own d1 = [r0]"
          by (rule latest_where_single)
        moreover have "name this \<in> names d1"
          using retry(1,2) by (simp add: names_def)
        ultimately show ?thesis
          by simp
      qed
    qed
    then obtain rest where n1: "name this \<in> names d1" and l1: "latest_where ?own d1 = r0 # rest"
      by blast
    show "qualifiedSave fs d1 this = (Inr r0, d1\<lparr>calls := calls d1 @ [Insert slug, q1]\<rparr>)"
      using qualifiedSave_owned [OF v n1 assms(3,4) l1] by (simp add: assms(5,6))
  }
qed

text \<open>
  The spec's example: \<open>Allocate("my-review", subjectA, actorX)\<close> on the store that holds the
  record of \<open>subjectA\<close>, and called twice from the empty store.
\<close>

theorem idempotent_for_owner_witness:
  "''my-review'' \<in> names store1 \<and> slugA \<in> set (rows store1) \<and>
   baseName slugA = Some ''my-review'' \<and> thingID slugA = subjectA \<and>
   Allocate no_faults store1 ''my-review'' subjectA actorX 5000 =
     (Inr slugA,
      store1\<lparr>calls := [Insert ((candidate ''my-review'' subjectA actorX 5000)
                                 \<lparr>baseName := Some ''my-review''\<rparr>),
                        FilterBaseNameThingID ''my-review'' subjectA]\<rparr>) \<and>
   Allocate no_faults empty_db ''my-review'' subjectA actorX 1000 =
     (Inr slugA, store1\<lparr>calls := [Insert slugA]\<rparr>) \<and>
   Allocate no_faults (store1\<lparr>calls := [Insert slugA]\<rparr>) ''my-review'' subjectA actorX 5000 =
     (Inr slugA,
      store1\<lparr>calls := [Insert slugA,
                        Insert ((candidate ''my-review'' subjectA actorX 5000)
                                 \<lparr>baseName := Some ''my-review''\<rparr>),
                        FilterBaseNameThingID ''my-review'' subjectA]\<rparr>)"
proof -
  let ?c = "candidate ''my-review'' subjectA actorX 5000"
  have c: "name ?c = ''my-review''" "thingID ?c = subjectA" "qualifierPart ?c = None"
    "length (name ?c) \<le> 100"
    by (simp_all add: candidate_def)
  have f: "save1_fault no_faults = None" "query1_fault no_faults = None"
    by (simp_all add: no_faults_def)
  have first: "qualifiedSave no_faults empty_db (candidate ''my-review'' subjectA actorX 1000) =
      (Inr slugA, store1\<lparr>calls := [Insert slugA]\<rparr>)"
    by (simp add: qualifiedSave_def Let_def no_faults_def save_def validate_def names_def
        candidate_def empty_db_def store1_def slugA_def)
  have s: "''my-review'' \<in> names store1" "slugA \<in> set (rows store1)"
    "baseName slugA = Some ''my-review''" "thingID slugA = subjectA"
    "rows empty_db = []" "calls store1 = []"
    by (simp_all add: names_def store1_def slugA_def empty_db_def)
  have l: "latest_where (\<lambda>x. baseName x = Some ''my-review'' \<and> thingID x = subjectA) store1 =
      [slugA]"
    by (simp add: latest_where_def store1_def slugA_def orderBy_desc_createdOn_def limit_def)
  have once: "qualifiedSave no_faults store1 ?c =
      (Inr slugA, store1\<lparr>calls := [Insert (?c\<lparr>baseName := Some ''my-review''\<rparr>),
         FilterBaseNameThingID ''my-review'' subjectA]\<rparr>)"
    using qualifiedSave_owned [of ?c store1 no_faults slugA "[]"] s l
    by (simp add: c f validate_def)
  note th = idempotent_for_owner [OF c(3,4) f refl refl, unfolded c(1,2)]
  have twice: "qualifiedSave no_faults (store1\<lparr>calls := [Insert slugA]\<rparr>) ?c =
      (Inr slugA, store1\<lparr>calls := [Insert slugA, Insert (?c\<lparr>baseName := Some ''my-review''\<rparr>),
         FilterBaseNameThingID ''my-review'' subjectA]\<rparr>)"
    using th [of empty_db "candidate ''my-review'' subjectA actorX 1000" slugA
        "store1\<lparr>calls := [Insert slugA]\<rparr>"] first s
    by (simp add: candidate_def)
  show ?thesis
    using s once first twice by (simp add: Allocate_def)
qed

section \<open>The effect of a call on the table\<close>

text \<open>What any call, with any faults, does to the table and what it can resolve with.\<close>

lemma save_effect:
  assumes "save fault d doc = (res, d')"
  shows "(\<exists>e. res = Inl e) \<and> rows d' = rows d \<or>
         res = Inr doc \<and> rows d' = rows d @ [doc] \<and> name doc \<notin> names d \<and> validate doc"
  using assms by (auto simp: save_def Let_def split: if_splits option.splits)

lemma run_query_effect:
  assumes "run_query fault c P d = (res, d')"
  shows "rows d' = rows d \<and> ((\<exists>e. res = Inl e) \<or> res = Inr (latest_where P d))"
  using assms by (auto simp: run_query_def Let_def split: option.splits)

lemma qualifiedSave_effect:
  assumes "qualifiedSave fs d this = (res, d')"
    and "slug = this\<lparr>baseName := Some (name this)\<rparr>"
  shows "rows d' = rows d \<and> (\<forall>r. res = Inr r \<longrightarrow> r \<in> set (rows d)) \<or>
    (\<exists>r. res = Inr r \<and> rows d' = rows d @ [r] \<and> name r \<notin> names d \<and> validate r \<and>
       (r = slug \<or>
        r = qualify slug (latestQualifier (latest_where (\<lambda>x. baseName x = Some (name this)) d))))"
proof -
  obtain r1 d1 where s1: "save (save1_fault fs) d slug = (r1, d1)"
    by (cases "save (save1_fault fs) d slug") auto
  note e1 = save_effect [OF s1]
  show ?thesis
  proof (cases r1)
    case (Inr saved)
    then show ?thesis
      using assms e1 s1 by (auto simp: qualifiedSave_def Let_def)
  next
    case (Inl error)
    then have rows1: "rows d1 = rows d"
      using e1 by auto
    show ?thesis
    proof (cases "err_name error = ''DuplicatePrimaryKeyError''")
      case False
      then show ?thesis
        using assms s1 Inl rows1 by (auto simp: qualifiedSave_def Let_def)
    next
      case True
      let ?own = "\<lambda>x. baseName x = Some (name this) \<and> thingID x = thingID this"
      obtain r2 d2 where s2:
        "run_query (query1_fault fs) (FilterBaseNameThingID (name this) (thingID this)) ?own d1
           = (r2, d2)"
        by (cases "run_query (query1_fault fs) (FilterBaseNameThingID (name this) (thingID this))
            ?own d1") auto
      note e2 = run_query_effect [OF s2]
      have rows2: "rows d2 = rows d"
        using e2 rows1 by simp
      have q1: "qualifiedSave fs d this =
        (case r2 of Inl e \<Rightarrow> (Inl e, d2)
         | Inr slugs \<Rightarrow>
             (case slugs of s0 # _ \<Rightarrow> (Inr s0, d2)
              | [] \<Rightarrow>
                 (case filter_baseName (query2_fault fs) d2 (name this) of
                    (Inl e, d3) \<Rightarrow> (Inl e, d3)
                  | (Inr slugs', d3) \<Rightarrow>
                      save (save2_fault fs) d3 (qualify slug (latestQualifier slugs')))))"
        using s1 s2 Inl True assms(2)
        by (auto simp: qualifiedSave_def Let_def filter_baseName_thingID_def
            split: sum.splits list.splits)
      show ?thesis
      proof (cases r2)
        case (Inl e)
        then show ?thesis
          using q1 assms(1) rows2 by auto
      next
        case (Inr slugs)
        then have slugs: "slugs = latest_where ?own d"
          using e2 latest_where_rows [OF rows1] by auto
        show ?thesis
        proof (cases slugs)
          case (Cons s0 rest)
          then have "s0 \<in> set (rows d)"
            using latest_where_Cons(2) [of ?own d s0 rest] slugs by simp
          then show ?thesis
            using q1 assms(1) rows2 Inr Cons by auto
        next
          case Nil
          obtain r3 d3 where s3:
            "run_query (query2_fault fs) (FilterBaseName (name this))
               (\<lambda>x. baseName x = Some (name this)) d2 = (r3, d3)"
            by (cases "run_query (query2_fault fs) (FilterBaseName (name this))
                (\<lambda>x. baseName x = Some (name this)) d2") auto
          note e3 = run_query_effect [OF s3]
          have rows3: "rows d3 = rows d"
            using e3 rows2 by simp
          show ?thesis
          proof (cases r3)
            case (Inl e)
            then show ?thesis
              using q1 assms(1) \<open>r2 = Inr slugs\<close> Nil s3 rows3
              by (auto simp: filter_baseName_def)
          next
            case (Inr slugs')
            then have slugs': "slugs' = latest_where (\<lambda>x. baseName x = Some (name this)) d"
              using e3 latest_where_rows [OF rows2] by auto
            have "save (save2_fault fs) d3 (qualify slug (latestQualifier slugs')) = (res, d')"
              using q1 assms(1) \<open>r2 = Inr slugs\<close> Nil s3 Inr by (simp add: filter_baseName_def)
            from save_effect [OF this] show ?thesis
              using rows3 slugs' names_rows [OF rows3] by auto
          qed
        qed
      qed
    qed
  qed
qed

section \<open>The structural invariant\<close>

lemma latest_where_subset: "set (latest_where P d) \<subseteq> set (rows d)"
proof -
  have "set (latest_where P d) \<subseteq> set (sort_key (\<lambda>r. - createdOn r) (filter P (rows d)))"
    unfolding latest_where_def limit_def orderBy_desc_createdOn_def by (rule set_take_subset)
  then show ?thesis
    by auto
qed

lemma canonical_digits_of: "2 \<le> n \<Longrightarrow> canonical_qualifier (digits_of n)"
  by (simp add: canonical_qualifier_def digits_val_digits_of)

lemma canonical_parses:
  assumes "canonical_qualifier q"
  shows "Number (Some q) = Dec (int (digits_val q)) 0"
  using assms Number_digits_of [of "digits_val q"] by (simp add: canonical_qualifier_def)

lemma canonical_latestQualifier:
  assumes "\<forall>l\<in>set slugs. slug_invariant l"
    and "\<forall>l\<in>set slugs. \<forall>q. qualifierPart l = Some q \<longrightarrow> digits_val q < 2 ^ 53"
  shows "canonical_qualifier (String (latestQualifier slugs))"
proof (cases slugs)
  case Nil
  then show ?thesis
    using canonical_digits_of [of 2] by (simp add: latestQualifier_def String_two digits_of_2)
next
  case (Cons l rest)
  show ?thesis
  proof (cases "qualifierPart l")
    case None
    then show ?thesis
      using canonical_digits_of [of 2] Cons
      by (simp add: latestQualifier_def Number_def isNaN_def String_two digits_of_2)
  next
    case (Some q)
    then have c: "canonical_qualifier q" and b: "digits_val q < 2 ^ 53"
      using assms Cons by (auto simp: slug_invariant_def)
    then have q: "qualifierPart l = Some (digits_of (digits_val q))"
      using Some by (simp add: canonical_qualifier_def)
    have "String (latestQualifier slugs) = digits_of (digits_val q + 1)"
      using latestQualifier_digits [OF b q] Cons by simp
    then show ?thesis
      using canonical_digits_of [of "digits_val q + 1"] c
      by (simp add: canonical_qualifier_def)
  qed
qed

text \<open>
  Claim C8, as stated, fails on a store with an anomalous record: after a record whose
  qualifier is \<open>2.5\<close> the allocator creates a record with the qualifier \<open>3.5\<close>, which is not
  the numeral of an integer.
\<close>

theorem created_slug_invariant_counterexample:
  "fst (Allocate no_faults (store_with (Some ''2.5'')) ''my-review'' subjectB actorY 2000) =
     Inr \<lparr>name = ''my-review-3.5'', baseName = Some ''my-review'', qualifierPart = Some ''3.5'',
          thingID = subjectB, createdOn = 2000, createdBy = actorY\<rparr> \<and>
   \<not> slug_invariant
     \<lparr>name = ''my-review-3.5'', baseName = Some ''my-review'', qualifierPart = Some ''3.5'',
      thingID = subjectB, createdOn = 2000, createdBy = actorY\<rparr> \<and>
   Number (Some ''3.5'') = Dec 35 (- 1)"
proof -
  have n: "Number (Some ''2.5'') = Dec 25 (- 1)" "Number (Some ''3.5'') = Dec 35 (- 1)"
    by (simp_all add: number_eval)
  have s: "String (plus_one (Dec 25 (- 1))) = ''3.5''"
    using String_next_fraction by (simp add: n)
  have "fst (Allocate no_faults (store_with (Some ''2.5'')) ''my-review'' subjectB actorY 2000) =
     Inr \<lparr>name = ''my-review-3.5'', baseName = Some ''my-review'', qualifierPart = Some ''3.5'',
          thingID = subjectB, createdOn = 2000, createdBy = actorY\<rparr>"
    by (simp add: Allocate_def candidate_def store_with_def slugA_def store_eval n s
        subjectA_def subjectB_def)
  moreover have "\<not> canonical_qualifier ''3.5''"
    by (simp add: canonical_qualifier_def digits_val_def digit_val_def digits_of.simps
        digit_char_def)
  ultimately show ?thesis
    using n(2) by (simp add: slug_invariant_def)
qed

text \<open>
  Claim C8, amended. In a store whose records all satisfy the structural invariant (with
  qualifiers below \<open>2 ^ 53\<close>, where adding one is exact), every call with a candidate
  without qualifier keeps it: every record of the table afterwards, and so the one the
  call created or returned, has \<open>name = baseName\<close> when \<open>qualifierPart\<close> is absent, and
  otherwise \<open>name = baseName-qualifierPart\<close> with the decimal numeral of an integer of at
  least 2. The \<open>baseName\<close> of a created record is the requested name; the retry path
  leaves it as the first insert set it.
\<close>

theorem created_slug_invariant:
  assumes "qualifierPart this = None"
    and "\<forall>r\<in>set (rows d). slug_invariant r"
    and "\<forall>r\<in>set (rows d). \<forall>q. qualifierPart r = Some q \<longrightarrow> digits_val q < 2 ^ 53"
    and "qualifiedSave fs d this = (res, d')"
  shows "(\<forall>r\<in>set (rows d'). slug_invariant r) \<and>
    (\<forall>r\<in>set (rows d') - set (rows d). baseName r = Some (name this)) \<and>
    (\<forall>r. res = Inr r \<longrightarrow> r \<in> set (rows d') \<and> slug_invariant r)"
proof -
  let ?slug = "this\<lparr>baseName := Some (name this)\<rparr>"
  let ?L = "latest_where (\<lambda>x. baseName x = Some (name this)) d"
  have sub: "set ?L \<subseteq> set (rows d)"
    by (rule latest_where_subset)
  have "canonical_qualifier (String (latestQualifier ?L))"
    using assms(2,3) sub by (intro canonical_latestQualifier) blast+
  then have i2: "slug_invariant (qualify ?slug (latestQualifier ?L))"
    by (simp add: slug_invariant_def qualify_def)
  have i1: "slug_invariant ?slug"
    using assms(1) by (simp add: slug_invariant_def)
  have b: "baseName ?slug = Some (name this)"
    "baseName (qualify ?slug (latestQualifier ?L)) = Some (name this)"
    by (simp_all add: qualify_def)
  from qualifiedSave_effect [OF assms(4) refl] consider
    (same) "rows d' = rows d" "\<forall>r. res = Inr r \<longrightarrow> r \<in> set (rows d)"
  | (new) r where "res = Inr r" "rows d' = rows d @ [r]"
      "r = ?slug \<or> r = qualify ?slug (latestQualifier ?L)"
    by blast
  then show ?thesis
  proof cases
    case same
    then show ?thesis
      using assms(2) by auto
  next
    case new
    then have "slug_invariant r" "baseName r = Some (name this)"
      using i1 i2 b by auto
    then show ?thesis
      using new(1,2) assms(2) by auto
  qed
qed

lemma String_three: "String (plus_one (Dec 2 0)) = ''3''"
  by (simp add: number_eval)

lemma Number_two: "Number (Some ''2'') = Dec 2 0"
  by (simp add: number_eval)

lemma Allocate_third:
  "Allocate no_faults store2 ''my-review'' subjectC actorZ 3000 =
     (Inr slugC,
      \<lparr>rows = [slugA, slugB, slugC],
       calls = [Insert ((candidate ''my-review'' subjectC actorZ 3000)
                          \<lparr>baseName := Some ''my-review''\<rparr>),
                FilterBaseNameThingID ''my-review'' subjectC,
                FilterBaseName ''my-review'',
                Insert slugC]\<rparr>)"
  by (simp add: Allocate_def candidate_def store2_def slugA_def slugB_def slugC_def store_eval
      Number_two String_three subjectA_def subjectB_def subjectC_def)

lemma slug_invariant_examples:
  "slug_invariant slugA" "slug_invariant slugB" "slug_invariant slugC"
  by (simp_all add: slug_invariant_def slugA_def slugB_def slugC_def canonical_qualifier_def
      digits_val_def digit_val_def digits_of.simps digit_char_def)

text \<open>The third allocation of the spec's example, on the store holding the first two.\<close>

theorem created_slug_invariant_witness:
  "qualifierPart (candidate ''my-review'' subjectC actorZ 3000) = None \<and>
   rows store2 = [slugA, slugB] \<and> slug_invariant slugA \<and> slug_invariant slugB \<and>
   qualifierPart slugA = None \<and> qualifierPart slugB = Some ''2'' \<and>
   digits_val ''2'' < 2 ^ 53 \<and>
   fst (Allocate no_faults store2 ''my-review'' subjectC actorZ 3000) = Inr slugC \<and>
   rows (snd (Allocate no_faults store2 ''my-review'' subjectC actorZ 3000)) =
     [slugA, slugB, slugC] \<and>
   slug_invariant slugC \<and> baseName slugC = Some ''my-review''"
proof -
  have r: "rows store2 = [slugA, slugB]"
    by (simp add: store2_def)
  have q: "qualifierPart slugA = None" "qualifierPart slugB = Some ''2''"
    "baseName slugC = Some ''my-review''"
    by (simp_all add: slugA_def slugB_def slugC_def)
  have v: "digits_val ''2'' = 2"
    by (simp add: digits_val_def digit_val_def)
  then have b: "digits_val ''2'' < 2 ^ 53"
    by simp
  have c: "qualifierPart (candidate ''my-review'' subjectC actorZ 3000) = None"
    by (simp add: candidate_def)
  have h1: "\<forall>r\<in>set (rows store2). slug_invariant r"
    using slug_invariant_examples(1,2) by (simp add: r)
  have h2: "\<forall>r\<in>set (rows store2). \<forall>q. qualifierPart r = Some q \<longrightarrow> digits_val q < 2 ^ 53"
    using b by (simp add: r q)
  have "slug_invariant slugC"
    using created_slug_invariant [OF c h1 h2 Allocate_third [unfolded Allocate_def]] by simp
  then show ?thesis
    using r q b c slug_invariant_examples(1,2) by (simp add: Allocate_third)
qed

section \<open>Qualifiers in allocation order\<close>

lemma Allocate_second:
  "Allocate no_faults store1 ''my-review'' subjectB actorY 2000 =
     (Inr slugB,
      \<lparr>rows = [slugA, slugB],
       calls = [Insert ((candidate ''my-review'' subjectB actorY 2000)
                          \<lparr>baseName := Some ''my-review''\<rparr>),
                FilterBaseNameThingID ''my-review'' subjectB,
                FilterBaseName ''my-review'',
                Insert slugB]\<rparr>)"
  by (simp add: Allocate_def candidate_def store1_def slugA_def slugB_def store_eval
      Number_def String_two subjectA_def subjectB_def)

lemma Allocate_first:
  "Allocate no_faults empty_db ''my-review'' subjectA actorX 1000 =
     (Inr slugA, \<lparr>rows = [slugA], calls = [Insert slugA]\<rparr>)"
  by (simp add: Allocate_def candidate_def empty_db_def slugA_def store_eval)

text \<open>
  Claim C3, as stated, fails: the next qualifier is read off the most recent record still
  in the store. After the base record and \<open>my-review-2\<close> have been allocated and
  \<open>my-review-2\<close> has been removed, the third allocation returns the qualifier \<open>2\<close> again,
  not \<open>3\<close>.
\<close>

theorem monotonic_qualifiers_counterexample:
  "fst (Allocate no_faults empty_db ''my-review'' subjectA actorX 1000) = Inr slugA \<and>
   rows (snd (Allocate no_faults empty_db ''my-review'' subjectA actorX 1000)) = rows store1 \<and>
   fst (Allocate no_faults store1 ''my-review'' subjectB actorY 2000) = Inr slugB \<and>
   rows (snd (Allocate no_faults store1 ''my-review'' subjectB actorY 2000)) = rows store2 \<and>
   rows (delete_slug ''my-review-2'' store2) = [slugA] \<and>
   fst (Allocate no_faults (delete_slug ''my-review-2'' store2) ''my-review'' subjectC actorZ 3000) =
     Inr \<lparr>name = ''my-review-2'', baseName = Some ''my-review'', qualifierPart = Some ''2'',
          thingID = subjectC, createdOn = 3000, createdBy = actorZ\<rparr>"
proof -
  have "fst (Allocate no_faults (delete_slug ''my-review-2'' store2) ''my-review'' subjectC actorZ 3000) =
     Inr \<lparr>name = ''my-review-2'', baseName = Some ''my-review'', qualifierPart = Some ''2'',
          thingID = subjectC, createdOn = 3000, createdBy = actorZ\<rparr>"
    by (simp add: Allocate_def candidate_def delete_slug_def store2_def slugA_def slugB_def
        store_eval Number_def String_two subjectA_def subjectC_def)
  moreover have "rows (delete_slug ''my-review-2'' store2) = [slugA]"
    by (simp add: delete_slug_def store2_def slugA_def slugB_def)
  moreover have "rows store1 = [slugA]" "rows store2 = [slugA, slugB]"
    by (simp_all add: store1_def store2_def)
  ultimately show ?thesis
    by (simp add: Allocate_first Allocate_second)
qed

lemma sharing_append:
  "rows d' = rows d @ [r] \<Longrightarrow> baseName r = Some b \<Longrightarrow> sharing b d' = sharing b d @ [r]"
  by (simp add: sharing_def)

lemma latest_where_sharing:
  assumes "latest_where (\<lambda>x. baseName x = Some b) d = l # rest"
  shows "l \<in> set (sharing b d)" and "\<forall>x\<in>set (sharing b d). createdOn x \<le> createdOn l"
  using latest_where_Cons [OF assms] by (auto simp: sharing_def)

lemma qualifier_number_next:
  assumes "slug_invariant l" and "qualifier_number l < 2 ^ 53"
  shows "String (latestQualifier (l # rest)) = digits_of (qualifier_number l + 1)"
proof (cases "qualifierPart l")
  case None
  then show ?thesis
    using latestQualifier_unqualified [of l rest] by (simp add: qualifier_number_def)
next
  case (Some q)
  then have "qualifierPart l = Some (digits_of (digits_val q))"
    using assms(1) by (simp add: slug_invariant_def canonical_qualifier_def)
  then show ?thesis
    using latestQualifier_digits [of "digits_val q" l rest] assms(2) Some
    by (simp add: qualifier_number_def)
qed

text \<open>
  Claim C3, amended. For a fixed base name whose records are still in the store (the
  record named by the base name among them), well formed, and dated in allocation order,
  the qualifiers issued by successive calls are strictly increasing and never reused: a
  call that creates a record gives it the number of the most recently created record plus
  one, which is greater than the number of every record sharing the base name, and the
  records stay in chronological order for the next call. So after the base record and
  \<open>my-review-2\<close>, a third call by a new subject returns the qualifier \<open>3\<close> when
  \<open>my-review-2\<close> is still in the store.
\<close>

theorem monotonic_qualifiers:
  assumes "qualifierPart this = None"
    and "name this \<in> names d"
    and "\<forall>x\<in>set (sharing (name this) d). slug_invariant x \<and> qualifier_number x < 2 ^ 53"
    and "chronological (name this) d"
    and "\<forall>x\<in>set (sharing (name this) d). createdOn x < createdOn this"
    and "qualifiedSave fs d this = (Inr r, d')" and "r \<notin> set (rows d)"
  shows "(\<forall>x\<in>set (sharing (name this) d). qualifier_number x < qualifier_number r) \<and>
    (\<forall>l. latest_where (\<lambda>x. baseName x = Some (name this)) d = [l] \<longrightarrow>
         qualifier_number r = qualifier_number l + 1) \<and>
    qualifierPart r = Some (digits_of (qualifier_number r)) \<and>
    name r = name this @ ''-'' @ digits_of (qualifier_number r) \<and>
    rows d' = rows d @ [r] \<and> chronological (name this) d'"
proof -
  let ?b = "name this"
  let ?slug = "this\<lparr>baseName := Some ?b\<rparr>"
  let ?L = "latest_where (\<lambda>x. baseName x = Some ?b) d"
  from qualifiedSave_effect [OF assms(6) refl] assms(7)
  obtain rows': "rows d' = rows d @ [r]" and "name r \<notin> names d"
    and "r = ?slug \<or> r = qualify ?slug (latestQualifier ?L)"
    by auto
  with assms(2) have r: "r = qualify ?slug (latestQualifier ?L)"
    by auto
  have fields: "baseName r = Some ?b" "createdOn r = createdOn this"
    "qualifierPart r = Some (String (latestQualifier ?L))"
    "name r = ?b @ ''-'' @ String (latestQualifier ?L)"
    by (simp_all add: r qualify_def)
  have main: "String (latestQualifier ?L) = digits_of (qualifier_number r) \<and>
      (\<forall>x\<in>set (sharing ?b d). qualifier_number x < qualifier_number r) \<and>
      (\<forall>l. ?L = [l] \<longrightarrow> qualifier_number r = qualifier_number l + 1)"
  proof (cases ?L)
      case Nil
      then have "sharing ?b d = []"
        by (simp add: latest_where_Nil_iff sharing_def filter_empty_conv)
      moreover have "String (latestQualifier ?L) = ''2''"
        using Nil by (simp add: latestQualifier_def String_two)
      moreover from this have "qualifier_number r = 2"
        by (simp add: qualifier_number_def fields(3) digits_val_def digit_val_def)
      ultimately show ?thesis
        using Nil by (simp add: digits_of_2)
    next
      case (Cons l rest)
      note l = latest_where_sharing [OF Cons]
      have "slug_invariant l" "qualifier_number l < 2 ^ 53"
        using assms(3) l(1) by auto
      then have s: "String (latestQualifier ?L) = digits_of (qualifier_number l + 1)"
        using qualifier_number_next [of l rest] Cons by simp
      then have n: "qualifier_number r = qualifier_number l + 1"
        by (simp add: qualifier_number_def [of r] fields(3) digits_val_digits_of)
      have "\<forall>x\<in>set (sharing ?b d). qualifier_number x \<le> qualifier_number l"
        using assms(4) l unfolding chronological_def by blast
      then show ?thesis
        using s n Cons by (auto simp: less_Suc_eq_le)
  qed
  then have num: "String (latestQualifier ?L) = digits_of (qualifier_number r)"
    and gt: "\<forall>x\<in>set (sharing ?b d). qualifier_number x < qualifier_number r"
    and succ: "\<forall>l. ?L = [l] \<longrightarrow> qualifier_number r = qualifier_number l + 1"
    by blast+
  have "chronological ?b d'"
    unfolding chronological_def sharing_append [OF rows' fields(1)]
    using assms(4,5) gt fields(2) unfolding chronological_def
    by (auto simp: less_imp_le_nat)
  with gt succ num fields rows' show ?thesis
    by simp
qed

text \<open>The third allocation of the spec's example, with nothing deleted.\<close>

theorem monotonic_qualifiers_witness:
  "qualifierPart (candidate ''my-review'' subjectC actorZ 3000) = None \<and>
   ''my-review'' \<in> names store2 \<and>
   sharing ''my-review'' store2 = [slugA, slugB] \<and>
   slug_invariant slugA \<and> slug_invariant slugB \<and>
   qualifier_number slugA = 1 \<and> qualifier_number slugB = 2 \<and>
   chronological ''my-review'' store2 \<and>
   createdOn slugA < 3000 \<and> createdOn slugB < 3000 \<and>
   fst (Allocate no_faults store2 ''my-review'' subjectC actorZ 3000) = Inr slugC \<and>
   slugC \<notin> set (rows store2) \<and>
   qualifierPart slugC = Some ''3'' \<and> qualifier_number slugC = 3 \<and>
   chronological ''my-review'' (snd (Allocate no_faults store2 ''my-review'' subjectC actorZ 3000))"
proof -
  let ?c = "candidate ''my-review'' subjectC actorZ 3000"
  have c: "qualifierPart ?c = None" "name ?c = ''my-review''" "createdOn ?c = 3000"
    by (simp_all add: candidate_def)
  have sh: "sharing ''my-review'' store2 = [slugA, slugB]"
    by (simp add: sharing_def store2_def slugA_def slugB_def)
  have n: "qualifier_number slugA = 1" "qualifier_number slugB = 2" "qualifier_number slugC = 3"
    "qualifierPart slugC = Some ''3''"
    by (simp_all add: qualifier_number_def slugA_def slugB_def slugC_def digits_val_def
        digit_val_def)
  have t: "createdOn slugA < 3000" "createdOn slugB < 3000" "createdOn slugA < createdOn slugB"
    by (simp_all add: slugA_def slugB_def)
  have m: "''my-review'' \<in> names store2" "slugC \<notin> set (rows store2)"
    by (simp_all add: names_def store2_def slugA_def slugB_def slugC_def)
  have ch: "chronological ''my-review'' store2"
    using t(3) by (simp add: chronological_def sh n)
  have h3: "\<forall>x\<in>set (sharing (name ?c) store2). slug_invariant x \<and> qualifier_number x < 2 ^ 53"
    using slug_invariant_examples(1,2) by (simp add: c sh n)
  have h5: "\<forall>x\<in>set (sharing (name ?c) store2). createdOn x < createdOn ?c"
    using t by (simp add: c sh)
  have "chronological ''my-review''
      (snd (Allocate no_faults store2 ''my-review'' subjectC actorZ 3000))"
    using monotonic_qualifiers [OF c(1) _ h3 _ h5 Allocate_third [unfolded Allocate_def] m(2)]
      m(1) ch
    by (simp add: c Allocate_third)
  then show ?thesis
    using c(1) sh n t(1,2) m ch slug_invariant_examples(1,2) by (simp add: Allocate_third)
qed

section \<open>Steps of concurrent calls\<close>

lemma step_effect:
  assumes "step fault d t = (t', d')"
  shows "rows d' = rows d \<and> (\<forall>r. t' = Resolved r \<longrightarrow> t = Resolved r \<or> r \<in> set (rows d)) \<or>
    (\<exists>r. t' = Resolved r \<and> rows d' = rows d @ [r] \<and> name r \<notin> names d \<and> validate r \<and>
         (t = Save1 r \<or> t = Save2 r))"
proof (cases t)
  case (Save1 slug)
  obtain res d1 where s: "save fault d slug = (res, d1)"
    by (cases "save fault d slug") auto
  from save_effect [OF s] show ?thesis
    using assms Save1 s by (auto split: if_splits)
next
  case (Query1 slug)
  let ?own = "\<lambda>r. baseName r = Some (name slug) \<and> thingID r = thingID slug"
  obtain res d1 where s:
    "run_query fault (FilterBaseNameThingID (name slug) (thingID slug)) ?own d = (res, d1)"
    by (cases "run_query fault (FilterBaseNameThingID (name slug) (thingID slug)) ?own d") auto
  from run_query_effect [OF s] show ?thesis
    using assms Query1 s latest_where_Cons(2) [of ?own d]
    by (auto simp: filter_baseName_thingID_def split: list.splits)
next
  case (Query2 slug)
  obtain res d1 where s:
    "run_query fault (FilterBaseName (name slug)) (\<lambda>r. baseName r = Some (name slug)) d = (res, d1)"
    by (cases "run_query fault (FilterBaseName (name slug))
        (\<lambda>r. baseName r = Some (name slug)) d") auto
  from run_query_effect [OF s] show ?thesis
    using assms Query2 s by (auto simp: filter_baseName_def)
next
  case (Save2 slug)
  obtain res d1 where s: "save fault d slug = (res, d1)"
    by (cases "save fault d slug") auto
  from save_effect [OF s] show ?thesis
    using assms Save2 s by auto
next
  case (Resolved s)
  then show ?thesis
    using assms by auto
next
  case (Rejected e)
  then show ?thesis
    using assms by auto
qed

text \<open>The sequential function is the task run alone.\<close>

lemma run_alone_qualifiedSave:
  "run_alone fs d this =
     (case qualifiedSave fs d this of
        (Inr s, d') \<Rightarrow> (Resolved s, d')
      | (Inl e, d') \<Rightarrow> (Rejected e, d'))"
  by (auto simp: run_alone_def qualifiedSave_def start_def Let_def
      split: prod.splits sum.splits list.splits if_splits)

lemmas step_eval =
  alternating_def start_def candidate_def save_def validate_def names_def
  filter_baseName_thingID_def filter_baseName_def run_query_def latest_where_def
  orderBy_desc_createdOn_def limit_def latestQualifier_def qualify_def isNaN_def Let_def
  Number_def String_two

section \<open>Uniqueness of names\<close>

lemma run_Nil [simp]: "run [] sys = sys"
  by (simp add: run_def)

lemma run_Cons [simp]: "run (a # sched) sys = run sched (sched_step a sys)"
  by (simp add: run_def)

lemma run_append: "run (xs @ ys) sys = run ys (run xs sys)"
  by (simp add: run_def)

lemma pk_unique_append:
  "pk_unique d \<Longrightarrow> rows d' = rows d @ [r] \<Longrightarrow> name r \<notin> names d \<Longrightarrow> pk_unique d'"
  by (simp add: pk_unique_def names_def)

lemma pk_unique_same:
  assumes "pk_unique d" and "r \<in> set (rows d)" and "r' \<in> set (rows d)" and "name r = name r'"
  shows "r = r'"
  using assms unfolding pk_unique_def by (meson distinct_map inj_onD)

text \<open>
  The invariant of a system of concurrent calls: the names of the table are distinct, and
  every record a call has resolved with is a row of the table.
\<close>

lemma sched_step_invariant:
  assumes "pk_unique d" and "\<forall>t\<in>set ts. \<forall>r. t = Resolved r \<longrightarrow> r \<in> set (rows d)"
    and "sched_step a (d, ts) = (d', ts')"
  shows "pk_unique d' \<and> (\<forall>t\<in>set ts'. \<forall>r. t = Resolved r \<longrightarrow> r \<in> set (rows d')) \<and>
    set (rows d) \<subseteq> set (rows d') \<and> length ts' = length ts"
proof -
  obtain i fault where a: "a = (i, fault)"
    by (cases a) auto
  show ?thesis
  proof (cases "i < length ts")
    case False
    then show ?thesis
      using assms a by auto
  next
    case True
    obtain t1 d1 where s: "step fault d (ts ! i) = (t1, d1)"
      by (cases "step fault d (ts ! i)") auto
    then have eq: "d' = d1" "ts' = ts[i := t1]"
      using assms(3) a True by auto
    have old: "\<forall>r. ts ! i = Resolved r \<longrightarrow> r \<in> set (rows d)"
      using assms(2) [rule_format, OF nth_mem [OF True]] by simp
    have mem: "\<forall>t\<in>set ts'. t = t1 \<or> t \<in> set ts"
      using set_update_subset_insert [of ts i t1] eq(2) by auto
    have fin: ?thesis
      if "pk_unique d1" and "\<forall>r. t1 = Resolved r \<longrightarrow> r \<in> set (rows d1)"
        and "\<forall>t\<in>set ts. \<forall>r. t = Resolved r \<longrightarrow> r \<in> set (rows d1)"
        and "set (rows d) \<subseteq> set (rows d1)"
    proof -
      have "\<forall>t\<in>set ts'. \<forall>r. t = Resolved r \<longrightarrow> r \<in> set (rows d1)"
      proof (intro ballI allI impI)
        fix t r
        assume t: "t \<in> set ts'" "t = Resolved r"
        then consider "t = t1" | "t \<in> set ts"
          using mem by auto
        then show "r \<in> set (rows d1)"
        proof cases
          case 1
          then show ?thesis
            using that(2) t(2) by simp
        next
          case 2
          then show ?thesis
            using that(3) t(2) by simp
        qed
      qed
      moreover have "length ts' = length ts"
        by (simp add: eq(2))
      ultimately show ?thesis
        using that(1,4) by (simp add: eq(1))
    qed
    from step_effect [OF s] consider
      (same) "rows d1 = rows d"
        "\<forall>r. t1 = Resolved r \<longrightarrow> ts ! i = Resolved r \<or> r \<in> set (rows d)"
    | (new) r where "t1 = Resolved r" "rows d1 = rows d @ [r]" "name r \<notin> names d"
      by blast
    then show ?thesis
    proof cases
      case same
      have "pk_unique d1"
        using assms(1) same(1) by (simp add: pk_unique_def)
      moreover have "\<forall>r. t1 = Resolved r \<longrightarrow> r \<in> set (rows d1)"
        using same old by auto
      moreover have "\<forall>t\<in>set ts. \<forall>r. t = Resolved r \<longrightarrow> r \<in> set (rows d1)"
        using assms(2) same(1) by simp
      ultimately show ?thesis
        using same(1) by (intro fin) auto
    next
      case new
      have "pk_unique d1"
        using assms(1) new(2,3) by (rule pk_unique_append)
      moreover have "\<forall>r. t1 = Resolved r \<longrightarrow> r \<in> set (rows d1)"
        using new(1,2) by simp
      moreover have "\<forall>t\<in>set ts. \<forall>r. t = Resolved r \<longrightarrow> r \<in> set (rows d1)"
        using assms(2) new(2) by simp
      ultimately show ?thesis
        using new(2) by (intro fin) auto
    qed
  qed
qed

lemma run_invariant:
  assumes "pk_unique d" and "\<forall>t\<in>set ts. \<forall>r. t = Resolved r \<longrightarrow> r \<in> set (rows d)"
    and "run sched (d, ts) = (d', ts')"
  shows "pk_unique d' \<and> (\<forall>t\<in>set ts'. \<forall>r. t = Resolved r \<longrightarrow> r \<in> set (rows d')) \<and>
    set (rows d) \<subseteq> set (rows d') \<and> length ts' = length ts"
  using assms
proof (induction sched arbitrary: d ts)
  case Nil
  then show ?case
    by simp
next
  case (Cons a sched)
  obtain d1 ts1 where s: "sched_step a (d, ts) = (d1, ts1)"
    by (cases "sched_step a (d, ts)") auto
  note i = sched_step_invariant [OF Cons.prems(1,2) s]
  have "run sched (d1, ts1) = (d', ts')"
    using Cons.prems(3) s by simp
  from Cons.IH [OF _ _ this] i show ?case
    by auto
qed

text \<open>
  Claim C1. Take any store whose names are distinct (the primary key), any list of calls
  of \<open>qualifiedSave\<close> and any schedule of their store operations, one call after the other
  or interleaved, with any faults. Whenever two of the calls have resolved with records of
  the same name, these are one and the same record, a row of the table, and the names of
  the table are still distinct. Nothing but the insert's primary-key check is involved:
  a step that resolves a call either has just inserted the record as a fresh row, under a
  name that was not in the table, or returns a row that was already there.
\<close>

theorem name_uniqueness:
  assumes "pk_unique d0"
    and "run sched (d0, map start docs) = (d, ts)"
    and "i < length ts" and "j < length ts"
    and "ts ! i = Resolved r" and "ts ! j = Resolved r'"
    and "name r = name r'"
  shows "r = r' \<and> r \<in> set (rows d) \<and> pk_unique d \<and>
    (\<forall>fault d1 t r1 d2. step fault d1 t = (Resolved r1, d2) \<and> t \<noteq> Resolved r1 \<longrightarrow>
       rows d2 = rows d1 @ [r1] \<and> name r1 \<notin> names d1 \<or>
       rows d2 = rows d1 \<and> r1 \<in> set (rows d1))"
proof -
  have init: "\<forall>t\<in>set (map start docs). \<forall>r. t = Resolved r \<longrightarrow> r \<in> set (rows d0)"
    by (auto simp: start_def)
  note inv = run_invariant [OF assms(1) init assms(2)]
  have res: "\<forall>t\<in>set ts. \<forall>r. t = Resolved r \<longrightarrow> r \<in> set (rows d)"
    using inv by simp
  have "r \<in> set (rows d)"
    using res [rule_format, OF nth_mem [OF assms(3)]] assms(5) by simp
  moreover have "r' \<in> set (rows d)"
    using res [rule_format, OF nth_mem [OF assms(4)]] assms(6) by simp
  ultimately have "r \<in> set (rows d)" and "r = r'"
    using pk_unique_same [of d r r'] inv assms(7) by simp_all
  moreover have "rows d2 = rows d1 @ [r1] \<and> name r1 \<notin> names d1 \<or>
       rows d2 = rows d1 \<and> r1 \<in> set (rows d1)"
    if "step fault d1 t = (Resolved r1, d2)" "t \<noteq> Resolved r1" for fault d1 t r1 d2
    using step_effect [OF that(1)] that(2) by auto
  then have "\<forall>fault d1 t r1 d2. step fault d1 t = (Resolved r1, d2) \<and> t \<noteq> Resolved r1 \<longrightarrow>
       rows d2 = rows d1 @ [r1] \<and> name r1 \<notin> names d1 \<or>
       rows d2 = rows d1 \<and> r1 \<in> set (rows d1)"
    by blast
  ultimately show ?thesis
    using inv by simp
qed

text \<open>
  Two concurrent requests of \<open>subjectA\<close> for \<open>my-review\<close> on the store that holds its
  record: both resolve with that one record.
\<close>

theorem name_uniqueness_witness:
  "pk_unique store1 \<and>
   run (take 4 alternating)
     (store1, map start [candidate ''my-review'' subjectA actorX 5000,
                         candidate ''my-review'' subjectA actorX 6000]) =
     (store1\<lparr>calls :=
        [Insert ((candidate ''my-review'' subjectA actorX 5000)\<lparr>baseName := Some ''my-review''\<rparr>),
         Insert ((candidate ''my-review'' subjectA actorX 6000)\<lparr>baseName := Some ''my-review''\<rparr>),
         FilterBaseNameThingID ''my-review'' subjectA,
         FilterBaseNameThingID ''my-review'' subjectA]\<rparr>,
      [Resolved slugA, Resolved slugA]) \<and>
   slugA \<in> set (rows store1)"
proof -
  let ?docs = "[candidate ''my-review'' subjectA actorX 5000,
                candidate ''my-review'' subjectA actorX 6000]"
  let ?d = "store1\<lparr>calls :=
        [Insert ((candidate ''my-review'' subjectA actorX 5000)\<lparr>baseName := Some ''my-review''\<rparr>),
         Insert ((candidate ''my-review'' subjectA actorX 6000)\<lparr>baseName := Some ''my-review''\<rparr>),
         FilterBaseNameThingID ''my-review'' subjectA,
         FilterBaseNameThingID ''my-review'' subjectA]\<rparr>"
  have pk: "pk_unique store1"
    by (simp add: pk_unique_def store1_def)
  have r: "run (take 4 alternating) (store1, map start ?docs) =
      (?d, [Resolved slugA, Resolved slugA])"
    by (simp add: step_eval store1_def slugA_def)
  have "slugA = slugA \<and> slugA \<in> set (rows ?d) \<and> pk_unique ?d"
    using name_uniqueness [OF pk r, of 0 1 slugA slugA] by simp
  then show ?thesis
    using pk r by simp
qed

section \<open>Conflicts of the retry\<close>

lemma sched_step_others:
  assumes "sched_step a (d, ts) = (d', ts')"
  shows "length ts' = length ts" and "set (rows d) \<subseteq> set (rows d')"
    and "fst a \<noteq> j \<Longrightarrow> ts' ! j = ts ! j"
    and "j < length ts \<Longrightarrow> ts ! j = Resolved s \<Longrightarrow> ts' ! j = Resolved s"
proof -
  obtain i fault where a: "a = (i, fault)"
    by (cases a) auto
  obtain t1 d1 where s: "step fault d (ts ! i) = (t1, d1)"
    by (cases "step fault d (ts ! i)") auto
  have eq: "i < length ts \<Longrightarrow> d' = d1 \<and> ts' = ts[i := t1]"
    "\<not> i < length ts \<Longrightarrow> d' = d \<and> ts' = ts"
    using assms a s by auto
  show "length ts' = length ts"
    using eq by (cases "i < length ts") auto
  have "set (rows d) \<subseteq> set (rows d1)"
    using step_effect [OF s] by auto
  then show "set (rows d) \<subseteq> set (rows d')"
    using eq by (cases "i < length ts") auto
  show "ts' ! j = ts ! j" if "fst a \<noteq> j"
    using eq that a by (cases "i < length ts") auto
  show "ts' ! j = Resolved s" if "j < length ts" "ts ! j = Resolved s"
  proof (cases "i = j")
    case True
    then have "t1 = Resolved s"
      using s that(2) by simp
    then show ?thesis
      using eq that True by (cases "i < length ts") auto
  next
    case False
    then show ?thesis
      using eq that by (cases "i < length ts") auto
  qed
qed

lemma run_others:
  assumes "run mid (d, ts) = (d', ts')"
  shows "length ts' = length ts \<and> set (rows d) \<subseteq> set (rows d') \<and>
    ((\<forall>a\<in>set mid. fst a \<noteq> j) \<longrightarrow> ts' ! j = ts ! j) \<and>
    (j < length ts \<and> ts ! j = Resolved s \<longrightarrow> ts' ! j = Resolved s)"
  using assms
proof (induction mid arbitrary: d ts)
  case Nil
  then show ?case
    by simp
next
  case (Cons a mid)
  obtain d1 ts1 where s: "sched_step a (d, ts) = (d1, ts1)"
    by (cases "sched_step a (d, ts)") auto
  note o = sched_step_others [OF s]
  have "run mid (d1, ts1) = (d', ts')"
    using Cons.prems s by simp
  from Cons.IH [OF this] o(1,2) o(3) [of j] o(4) [of j s] show ?case
    by auto
qed

text \<open>
  Claim C2, as stated, fails in its second half: two calls for \<open>my-review\<close> that race
  into the retry with the same qualifier \<open>2\<close> both fail when the name \<open>my-review-2\<close> is
  already taken, here by a record that was requested under that very name.
\<close>

theorem conflict_surfacing_counterexample:
  "rows taken_store = [slugL, slugA] \<and>
   snd (run (take 6 alternating)
          (taken_store, [start (candidate ''my-review'' subjectB actorY 2000),
                         start (candidate ''my-review'' subjectD actorY 2100)])) =
     [Save2 \<lparr>name = ''my-review-2'', baseName = Some ''my-review'', qualifierPart = Some ''2'',
              thingID = subjectB, createdOn = 2000, createdBy = actorY\<rparr>,
      Save2 \<lparr>name = ''my-review-2'', baseName = Some ''my-review'', qualifierPart = Some ''2'',
              thingID = subjectD, createdOn = 2100, createdBy = actorY\<rparr>] \<and>
   snd (run alternating
          (taken_store, [start (candidate ''my-review'' subjectB actorY 2000),
                         start (candidate ''my-review'' subjectD actorY 2100)])) =
     [Rejected DuplicatePrimaryKeyError, Rejected DuplicatePrimaryKeyError]"
  by (simp add: alternating_def taken_store_def slugL_def slugA_def start_def candidate_def
      save_def validate_def names_def filter_baseName_thingID_def filter_baseName_def
      run_query_def latest_where_def orderBy_desc_createdOn_def limit_def latestQualifier_def
      qualify_def isNaN_def Let_def Number_def String_two
      subjectA_def subjectB_def subjectC_def subjectD_def)

lemma step_Save2_inserts:
  assumes "validate s" and "name s \<notin> names d"
  shows "step None d (Save2 s) =
    (Resolved s, d\<lparr>calls := calls d @ [Insert s], rows := rows d @ [s]\<rparr>)"
  by (simp add: save_inserts [OF assms])

lemma step_Save2_collides:
  assumes "validate s" and "name s \<in> names d"
  shows "step None d (Save2 s) =
    (Rejected DuplicatePrimaryKeyError, d\<lparr>calls := calls d @ [Insert s]\<rparr>)"
  by (simp add: save_collides [OF assms])

text \<open>
  Claim C2, amended. If the insert of the disambiguation retry fails with a name
  collision, the call is rejected with the store's duplicate-key error (the conflict of
  the spec) after its four store requests: no further query, no further insert, no new
  row. When two calls race into the retry with the same computed name and that name is
  not yet in the table when the first of them inserts, exactly one succeeds: the first to
  insert resolves with its record, and the other, whatever the other calls do in between,
  is rejected with the duplicate-key error when its insert runs. (If the name is already
  taken, both are rejected.)
\<close>

theorem conflict_surfacing:
  "(qualifierPart this = None \<and> length (name this) \<le> 100 \<and> name this \<in> names d \<and>
    latest_where (\<lambda>r. baseName r = Some (name this) \<and> thingID r = thingID this) d = [] \<and>
    slug = this\<lparr>baseName := Some (name this)\<rparr> \<and>
    retried = qualify slug (latestQualifier (latest_where (\<lambda>r. baseName r = Some (name this)) d)) \<and>
    validate retried \<and> name retried \<in> names d \<longrightarrow>
      qualifiedSave no_faults d this =
        (Inl DuplicatePrimaryKeyError,
         d\<lparr>calls := calls d @
              [Insert slug, FilterBaseNameThingID (name this) (thingID this),
               FilterBaseName (name this), Insert retried]\<rparr>)) \<and>
   (i < length ts \<and> j < length ts \<and> i \<noteq> j \<and> ts ! i = Save2 s \<and> ts ! j = Save2 s' \<and>
    name s = name s' \<and> validate s \<and> validate s' \<and> name s \<notin> names d \<and>
    (\<forall>a\<in>set mid. fst a \<noteq> j) \<and>
    run ((i, None) # mid @ [(j, None)]) (d, ts) = (d', ts') \<longrightarrow>
      ts' ! i = Resolved s \<and> ts' ! j = Rejected DuplicatePrimaryKeyError \<and> s \<in> set (rows d'))"
proof (intro conjI impI)
  assume a: "qualifierPart this = None \<and> length (name this) \<le> 100 \<and> name this \<in> names d \<and>
    latest_where (\<lambda>r. baseName r = Some (name this) \<and> thingID r = thingID this) d = [] \<and>
    slug = this\<lparr>baseName := Some (name this)\<rparr> \<and>
    retried = qualify slug (latestQualifier (latest_where (\<lambda>r. baseName r = Some (name this)) d)) \<and>
    validate retried \<and> name retried \<in> names d"
  then have v: "validate (this\<lparr>baseName := Some (name this)\<rparr>)"
    by (simp add: validate_candidate)
  let ?d3 = "d\<lparr>calls := calls d @ [Insert slug,
         FilterBaseNameThingID (name this) (thingID this), FilterBaseName (name this)]\<rparr>"
  have v2: "validate retried" and "name retried \<in> names d"
    and n: "name this \<in> names d"
    and e: "latest_where (\<lambda>r. baseName r = Some (name this) \<and> thingID r = thingID this) d = []"
    and s1: "slug = this\<lparr>baseName := Some (name this)\<rparr>"
    and s2: "retried = qualify slug (latestQualifier (latest_where (\<lambda>r. baseName r = Some (name this)) d))"
    using a by blast+
  then have n2: "name retried \<in> names ?d3"
    by simp
  have "qualifiedSave no_faults d this = save None ?d3 retried"
    using qualifiedSave_retry [OF v n _ _ _ e, of no_faults] by (simp add: no_faults_def s1 s2)
  also have "\<dots> = (Inl DuplicatePrimaryKeyError, ?d3\<lparr>calls := calls ?d3 @ [Insert retried]\<rparr>)"
    by (rule save_collides [OF v2 n2])
  finally show "qualifiedSave no_faults d this =
        (Inl DuplicatePrimaryKeyError,
         d\<lparr>calls := calls d @
              [Insert slug, FilterBaseNameThingID (name this) (thingID this),
               FilterBaseName (name this), Insert retried]\<rparr>)"
    by simp
next
  assume b: "i < length ts \<and> j < length ts \<and> i \<noteq> j \<and> ts ! i = Save2 s \<and> ts ! j = Save2 s' \<and>
    name s = name s' \<and> validate s \<and> validate s' \<and> name s \<notin> names d \<and>
    (\<forall>a\<in>set mid. fst a \<noteq> j) \<and>
    run ((i, None) # mid @ [(j, None)]) (d, ts) = (d', ts')"
  have i: "i < length ts" and j: "j < length ts" and ij: "i \<noteq> j"
    and ti0: "ts ! i = Save2 s" and tj0: "ts ! j = Save2 s'" and nm: "name s = name s'"
    and vs: "validate s" and vs': "validate s'" and free: "name s \<notin> names d"
    and others: "\<forall>a\<in>set mid. fst a \<noteq> j"
    and r: "run ((i, None) # mid @ [(j, None)]) (d, ts) = (d', ts')"
    using b by blast+
  let ?d1 = "d\<lparr>calls := calls d @ [Insert s], rows := rows d @ [s]\<rparr>"
  let ?ts1 = "ts[i := Resolved s]"
  have first: "sched_step (i, None) (d, ts) = (?d1, ?ts1)"
    using i by (simp del: step.simps add: ti0 step_Save2_inserts [OF vs free])
  obtain d2 ts2 where mid: "run mid (?d1, ?ts1) = (d2, ts2)"
    by (cases "run mid (?d1, ?ts1)") auto
  note o = run_others [OF mid]
  have len: "length ts2 = length ts"
    using o [of j s] by simp
  have tj: "ts2 ! j = Save2 s'"
    using o [of j s] others ij tj0 by simp
  have ti: "ts2 ! i = Resolved s"
    using o [of i s] i by simp
  have rows2: "s \<in> set (rows d2)"
    using o [of j s] by auto
  then have "name s \<in> names d2"
    by (simp add: names_def)
  then have taken: "name s' \<in> names d2"
    by (simp add: nm)
  let ?d3 = "d2\<lparr>calls := calls d2 @ [Insert s']\<rparr>"
  have last: "sched_step (j, None) (d2, ts2) = (?d3, ts2[j := Rejected DuplicatePrimaryKeyError])"
    using j len by (simp del: step.simps add: tj step_Save2_collides [OF vs' taken])
  have "run ((i, None) # mid @ [(j, None)]) (d, ts) =
      (?d3, ts2[j := Rejected DuplicatePrimaryKeyError])"
    by (simp only: run_Cons run_append first mid last run_Nil)
  then have "d' = ?d3" "ts' = ts2[j := Rejected DuplicatePrimaryKeyError]"
    using r by simp_all
  then show "ts' ! i = Resolved s" "ts' ! j = Rejected DuplicatePrimaryKeyError"
    "s \<in> set (rows d')"
    using j ij len ti rows2 by simp_all
qed

text \<open>
  The retry of a single call on the store where \<open>my-review-2\<close> is taken; and two calls
  racing for \<open>my-review-2\<close> on the store holding only \<open>my-review\<close>, from the retry and from
  the start.
\<close>

theorem conflict_surfacing_witness:
  "''my-review'' \<in> names taken_store \<and> ''my-review-2'' \<in> names taken_store \<and>
   Allocate no_faults taken_store ''my-review'' subjectB actorY 2000 =
     (Inl DuplicatePrimaryKeyError,
      taken_store\<lparr>calls :=
        [Insert ((candidate ''my-review'' subjectB actorY 2000)\<lparr>baseName := Some ''my-review''\<rparr>),
         FilterBaseNameThingID ''my-review'' subjectB,
         FilterBaseName ''my-review'',
         Insert slugB]\<rparr>) \<and>
   validate slugB \<and> validate (slugB\<lparr>thingID := subjectD\<rparr>) \<and>
   name slugB \<notin> names store1 \<and>
   snd (run [(0, None), (1, None)]
          (store1, [Save2 slugB, Save2 (slugB\<lparr>thingID := subjectD\<rparr>)])) =
     [Resolved slugB, Rejected DuplicatePrimaryKeyError] \<and>
   snd (run alternating
          (store1, [start (candidate ''my-review'' subjectB actorY 2000),
                    start (candidate ''my-review'' subjectD actorY 2000)])) =
     [Resolved slugB, Rejected DuplicatePrimaryKeyError]"
proof -
  let ?c = "candidate ''my-review'' subjectB actorY 2000"
  let ?slug = "?c\<lparr>baseName := Some ''my-review''\<rparr>"
  let ?sys = "(store1, [Save2 slugB, Save2 (slugB\<lparr>thingID := subjectD\<rparr>)])"
  have c: "name ?c = ''my-review''" "thingID ?c = subjectB" "qualifierPart ?c = None"
    "length (name ?c) \<le> 100"
    by (simp_all add: candidate_def)
  have n: "''my-review'' \<in> names taken_store" "''my-review-2'' \<in> names taken_store"
    "calls taken_store = []"
    by (simp_all add: names_def taken_store_def slugL_def slugA_def)
  have own: "latest_where (\<lambda>r. baseName r = Some ''my-review'' \<and> thingID r = subjectB)
      taken_store = []"
    by (simp add: latest_where_def taken_store_def slugL_def slugA_def subjectA_def
        subjectB_def subjectC_def orderBy_desc_createdOn_def limit_def)
  have base: "latest_where (\<lambda>r. baseName r = Some ''my-review'') taken_store = [slugA]"
    by (simp add: latest_where_def taken_store_def slugL_def slugA_def
        orderBy_desc_createdOn_def limit_def)
  have q: "qualify ?slug (latestQualifier [slugA]) = slugB"
    by (simp add: qualify_def latestQualifier_def slugA_def slugB_def candidate_def Number_def
        isNaN_def String_two)
  have v: "validate slugB" "validate (slugB\<lparr>thingID := subjectD\<rparr>)"
    "name slugB = ''my-review-2''" "name slugB \<notin> names store1"
    by (simp_all add: validate_def slugB_def names_def store1_def slugA_def)
  have seq: "qualifiedSave no_faults taken_store ?c =
     (Inl DuplicatePrimaryKeyError,
      taken_store\<lparr>calls := [Insert ?slug, FilterBaseNameThingID ''my-review'' subjectB,
         FilterBaseName ''my-review'', Insert slugB]\<rparr>)"
    using conflict_surfacing [where this = ?c and d = taken_store and slug = ?slug
        and retried = slugB] n own v
    by (simp add: c base q)
  have race: "snd (run [(0, None), (1, None)] ?sys) =
      [Resolved slugB, Rejected DuplicatePrimaryKeyError]"
  proof -
    have "length (snd (run [(0, None), (1, None)] ?sys)) = 2"
      using run_others [of "[(0, None), (1, None)]" store1 "snd ?sys"
          "fst (run [(0, None), (1, None)] ?sys)" "snd (run [(0, None), (1, None)] ?sys)"]
      by simp
    moreover have "snd (run [(0, None), (1, None)] ?sys) ! 0 = Resolved slugB \<and>
        snd (run [(0, None), (1, None)] ?sys) ! 1 = Rejected DuplicatePrimaryKeyError"
      using conflict_surfacing [where i = 0 and j = 1 and ts = "snd ?sys" and s = slugB
          and s' = "slugB\<lparr>thingID := subjectD\<rparr>" and d = store1 and mid = "[]"
          and d' = "fst (run [(0, None), (1, None)] ?sys)"
          and ts' = "snd (run [(0, None), (1, None)] ?sys)"] v
      by simp
    ultimately show ?thesis
      by (cases "snd (run [(0, None), (1, None)] ?sys)"; cases "tl (snd (run [(0, None), (1, None)] ?sys))") auto
  qed
  have full: "snd (run alternating
          (store1, [start (candidate ''my-review'' subjectB actorY 2000),
                    start (candidate ''my-review'' subjectD actorY 2000)])) =
     [Resolved slugB, Rejected DuplicatePrimaryKeyError]"
    by (simp add: step_eval store1_def slugA_def slugB_def DuplicatePrimaryKeyError_def
        subjectA_def subjectB_def subjectD_def)
  show ?thesis
    using n(1,2) seq v(1,2,4) race full by (simp add: Allocate_def n(3))
qed

end
